theory Spec2Isabelle
  imports Main "HOL-Library.Product_Lexorder" "HOL-Library.Multiset"
begin

section \<open>Food Waste Tracking and Donation Database: the data model\<close>

text \<open>
  The application is a Flask program over four SQL tables. The model below keeps each
  table as the list of its rows and each ORM class as a record of its columns. Column
  names are those of the source with a one-letter prefix for the table (\<open>d_\<close> for
  \<^verbatim>\<open>food_donations\<close>, \<open>c_\<close> for \<^verbatim>\<open>claims\<close>,
  \<open>u_\<close> for \<^verbatim>\<open>users\<close>), because the tables share the names
  \<^verbatim>\<open>id\<close> and \<^verbatim>\<open>status\<close>.

  Dates (\<^verbatim>\<open>date.today()\<close>, \<^verbatim>\<open>expiry_date\<close>) are day numbers and
  timestamps (\<^verbatim>\<open>datetime.utcnow()\<close>) are integers; both clocks are
  parameters of every operation that reads them. Nullable columns are options.
\<close>

datatype donation_status = D_available | D_claimed | D_completed | D_expired

datatype claim_status = C_claimed | C_scheduled | C_picked_up | C_completed | C_cancelled

datatype user_type = Donor | Ngo

record User =
  u_id :: nat
  u_username :: string
  u_email :: string
  u_password_hash :: string
  u_user_type :: user_type
  u_full_name :: string
  u_phone :: "string option"
  u_address :: "string option"
  u_city :: "string option"
  u_organization_name :: "string option"
  u_registration_number :: "string option"
  u_is_active :: bool
  u_created_at :: int
  u_updated_at :: int

record Category =
  cat_id :: int
  cat_name :: string

record FoodDonation =
  d_id :: nat
  d_donor_id :: nat
  d_category_id :: int
  d_title :: string
  d_description :: "string option"
  d_quantity :: int
  d_unit :: string
  d_expiry_date :: int
  d_pickup_address :: string
  d_pickup_city :: string
  d_pickup_instructions :: "string option"
  d_status :: donation_status
  d_is_perishable :: bool
  d_dietary_info :: "string option"
  d_created_at :: int
  d_updated_at :: int

record Claim =
  c_id :: nat
  c_donation_id :: nat
  c_ngo_id :: nat
  c_status :: claim_status
  c_claimed_at :: int
  c_pickup_scheduled_at :: "int option"
  c_completed_at :: "int option"
  c_notes :: "string option"

text \<open>
  The database: the rows of each table in insertion order. The ids of donations and
  claims are issued from the rows (see \<open>next_rowid\<close> below). No request deletes a user,
  so for users the next id is kept as a counter, \<open>next_user_id\<close>.
\<close>

record database =
  users :: "User list"
  categories :: "Category list"
  food_donations :: "FoodDonation list"
  claims :: "Claim list"
  next_user_id :: nat

subsection \<open>Python strings\<close>

text \<open>
  Strings are lists of characters. \<^verbatim>\<open>str.strip()\<close> removes the characters for which
  \<^verbatim>\<open>str.isspace\<close> holds from both ends; in the ASCII range these are the codes 9 to 13
  and 28 to 32. \<^verbatim>\<open>str.lower()\<close> maps \<^verbatim>\<open>A-Z\<close> to \<^verbatim>\<open>a-z\<close>. A string is truthy when it is
  not empty. The two functions are those of Python on ASCII text; beyond ASCII, Python
  also strips the characters U+0085 and U+00A0 and maps further upper-case letters, which
  are left as they are here.
\<close>

definition isspace :: "char \<Rightarrow> bool" where
  "isspace c = (let n = of_char c :: nat in (9 \<le> n \<and> n \<le> 13) \<or> (28 \<le> n \<and> n \<le> 32))"

definition lstrip :: "string \<Rightarrow> string" where
  "lstrip s = dropWhile isspace s"

definition rstrip :: "string \<Rightarrow> string" where
  "rstrip s = rev (dropWhile isspace (rev s))"

definition strip :: "string \<Rightarrow> string" where
  "strip s = rstrip (lstrip s)"

definition lower_char :: "char \<Rightarrow> char" where
  "lower_char c = (let n = of_char c :: nat in if 65 \<le> n \<and> n \<le> 90 then char_of (n + 32) else c)"

definition lower :: "string \<Rightarrow> string" where
  "lower s = map lower_char s"

text \<open>The double quote character, used inside flashed messages.\<close>

definition dq :: string where
  "dq = [CHR 0x22]"

subsection \<open>Model methods: FoodDonation\<close>

definition is_expired :: "int \<Rightarrow> FoodDonation \<Rightarrow> bool" where
  "is_expired today d = (d_expiry_date d < today)"

definition is_available :: "int \<Rightarrow> FoodDonation \<Rightarrow> bool" where
  "is_available today d = (d_status d = D_available \<and> \<not> is_expired today d)"

definition days_until_expiry :: "int \<Rightarrow> FoodDonation \<Rightarrow> int" where
  "days_until_expiry today d = d_expiry_date d - today"

definition is_urgent :: "int \<Rightarrow> FoodDonation \<Rightarrow> bool" where
  "is_urgent today d = (days_until_expiry today d \<le> 2)"

definition can_be_edited :: "FoodDonation \<Rightarrow> bool" where
  "can_be_edited d = (d_status d = D_available)"

definition can_be_claimed :: "int \<Rightarrow> FoodDonation \<Rightarrow> bool" where
  "can_be_claimed today d = (d_status d = D_available \<and> \<not> is_expired today d)"

text \<open>
  \<^verbatim>\<open>update_status_if_expired\<close> mutates the donation and returns a flag; the model
  returns the flag and the donation.
\<close>

definition update_status_if_expired :: "int \<Rightarrow> FoodDonation \<Rightarrow> bool \<times> FoodDonation" where
  "update_status_if_expired today d =
     (if is_expired today d \<and> d_status d = D_available
      then (True, d\<lparr>d_status := D_expired\<rparr>)
      else (False, d))"

subsection \<open>Model methods: Claim\<close>

definition is_active :: "Claim \<Rightarrow> bool" where
  "is_active c = (c_status c \<notin> {C_completed, C_cancelled})"

definition can_be_cancelled :: "Claim \<Rightarrow> bool" where
  "can_be_cancelled c = (c_status c \<in> {C_claimed, C_scheduled})"

subsection \<open>Model methods: User\<close>

definition is_donor :: "User \<Rightarrow> bool" where
  "is_donor u = (u_user_type u = Donor)"

definition is_ngo :: "User \<Rightarrow> bool" where
  "is_ngo u = (u_user_type u = Ngo)"

definition get_display_name :: "User \<Rightarrow> string" where
  "get_display_name u =
     (case u_organization_name u of
        Some n \<Rightarrow> if is_ngo u \<and> n \<noteq> [] then n else u_full_name u
      | None \<Rightarrow> u_full_name u)"


text \<open>
  The methods of \<^verbatim>\<open>Claim\<close> that also write to \<^verbatim>\<open>self.donation\<close> work on the
  claim object together with the donation object the relationship loads (absent when no
  row has the claim's \<^verbatim>\<open>donation_id\<close>). Both objects live in the ORM session until
  the route commits. The route \<^verbatim>\<open>cancel_claim\<close> of \<^verbatim>\<open>routes/ngo.py\<close> keeps its name
  below, so the method \<^verbatim>\<open>Claim.cancel_claim\<close> is \<open>Claim_cancel_claim\<close>.
\<close>

type_synonym claim_session = "Claim \<times> FoodDonation option"

definition mark_as_completed :: "int \<Rightarrow> claim_session \<Rightarrow> claim_session" where
  "mark_as_completed now s =
     (case s of (c, donation) \<Rightarrow>
        (c\<lparr>c_status := C_completed, c_completed_at := Some now\<rparr>,
         map_option (\<lambda>d. d\<lparr>d_status := D_completed\<rparr>) donation))"

definition Claim_cancel_claim :: "string option \<Rightarrow> claim_session \<Rightarrow> claim_session" where
  "Claim_cancel_claim reason s =
     (case s of (c, donation) \<Rightarrow>
        (let c1 = c\<lparr>c_status := C_cancelled\<rparr>;
             c2 = (case reason of
                     None \<Rightarrow> c1
                   | Some r \<Rightarrow> if r \<noteq> [] then c1\<lparr>c_notes := Some (''Cancelled: '' @ r)\<rparr> else c1)
         in (c2, map_option (\<lambda>d. d\<lparr>d_status := D_available\<rparr>) donation)))"

section \<open>The ORM layer\<close>

text \<open>
  Queries are searches of the row lists. \<^verbatim>\<open>claim.donation\<close> is the donation row whose
  id is the claim's \<^verbatim>\<open>donation_id\<close>; \<^verbatim>\<open>donation.claim\<close> (\<^verbatim>\<open>uselist=False\<close>) is
  the claim row that references the donation.
\<close>

definition donation_of :: "database \<Rightarrow> Claim \<Rightarrow> FoodDonation option" where
  "donation_of db c = find (\<lambda>d. d_id d = c_donation_id c) (food_donations db)"

definition claim_of :: "database \<Rightarrow> FoodDonation \<Rightarrow> Claim option" where
  "claim_of db d = find (\<lambda>c. c_donation_id c = d_id d) (claims db)"

definition get_donation :: "database \<Rightarrow> nat \<Rightarrow> FoodDonation option" where
  "get_donation db i = find (\<lambda>d. d_id d = i) (food_donations db)"

definition get_own_donation :: "database \<Rightarrow> nat \<Rightarrow> nat \<Rightarrow> FoodDonation option" where
  "get_own_donation db i donor = find (\<lambda>d. d_id d = i \<and> d_donor_id d = donor) (food_donations db)"

definition get_own_claim :: "database \<Rightarrow> nat \<Rightarrow> nat \<Rightarrow> Claim option" where
  "get_own_claim db i ngo = find (\<lambda>c. c_id c = i \<and> c_ngo_id c = ngo) (claims db)"

text \<open>
  A commit writes the changed objects back to their rows. The column
  \<^verbatim>\<open>updated_at\<close> of a donation has \<^verbatim>\<open>onupdate=datetime.utcnow\<close>: it is stamped
  when the row is written, and a row whose object carries no change is not written.
  The connection to the database is taken as reliable, so a commit fails only on a
  constraint of the schema.
\<close>

definition flush_donation :: "int \<Rightarrow> FoodDonation \<Rightarrow> FoodDonation \<Rightarrow> FoodDonation" where
  "flush_donation now row obj = (if obj = row then row else obj\<lparr>d_updated_at := now\<rparr>)"

definition write_donation :: "int \<Rightarrow> FoodDonation \<Rightarrow> FoodDonation list \<Rightarrow> FoodDonation list" where
  "write_donation now obj rows = map (\<lambda>r. if d_id r = d_id obj then flush_donation now r obj else r) rows"

definition write_claim :: "Claim \<Rightarrow> Claim list \<Rightarrow> Claim list" where
  "write_claim obj rows = map (\<lambda>r. if c_id r = c_id obj then obj else r) rows"

definition commit_session :: "int \<Rightarrow> claim_session \<Rightarrow> database \<Rightarrow> database" where
  "commit_session now s db =
     (case s of (c, donation) \<Rightarrow>
        db\<lparr>claims := write_claim c (claims db),
           food_donations := (case donation of
                                None \<Rightarrow> food_donations db
                              | Some d \<Rightarrow> write_donation now d (food_donations db))\<rparr>)"

text \<open>
  The primary keys \<^verbatim>\<open>id\<close> are integer columns that the database fills in. The default
  database of the application is SQLite, which gives a new row one more than the largest
  id in its table, and 1 in an empty table. So the id of a deleted row is issued again
  when that row was the last one.
\<close>

definition next_rowid :: "nat list \<Rightarrow> nat" where
  "next_rowid ids = (if ids = [] then 1 else Suc (Max (set ids)))"

text \<open>
  Inserting a claim: \<^verbatim>\<open>claims.donation_id\<close> is \<^verbatim>\<open>unique=True\<close>, so the insert raises
  (the result is \<open>None\<close>) when a claim row already references the donation.
\<close>

definition insert_claim :: "Claim \<Rightarrow> database \<Rightarrow> database option" where
  "insert_claim c db =
     (if \<exists>r \<in> set (claims db). c_donation_id r = c_donation_id c then None
      else Some (db\<lparr>claims := claims db @ [c]\<rparr>))"

section \<open>Requests, responses and access control\<close>

text \<open>
  A route returns the database after the request, the messages it flashed (text and
  category, in order) and its response. A form arrives with a POST; its CSRF token is
  taken as valid, so \<^verbatim>\<open>validate_on_submit()\<close> is "the request is a POST and every field
  validator passes". \<^verbatim>\<open>current_user\<close> is \<open>Some u\<close> for a visitor who is logged in to
  an active account, and \<open>None\<close> for every other visitor. The decorator
  \<^verbatim>\<open>login_required\<close> tests \<^verbatim>\<open>current_user.is_authenticated\<close>, which for this user
  model reads the column \<^verbatim>\<open>is_active\<close>; the login route refuses an inactive account,
  so a session of an account that was deactivated afterwards is the one case besides the
  anonymous visitor, and the decorator answers both alike.
\<close>

datatype endpoint =
    Main_index | Main_dashboard | Auth_login
  | Donor_dashboard | Donor_my_donations | Donor_view_donation nat
  | Ngo_view_donation nat | Ngo_view_claim nat | Ngo_my_claims
  | Url string

datatype response = Redirect endpoint | Render_template string | Not_found

datatype 'f request = GET | POST 'f

record outcome =
  out_db :: database
  flashes :: "(string \<times> string) list"
  response :: response

definition reply :: "database \<Rightarrow> (string \<times> string) list \<Rightarrow> response \<Rightarrow> outcome" where
  "reply db fl r = \<lparr>out_db = db, flashes = fl, response = r\<rparr>"

definition login_required :: "User option \<Rightarrow> database \<Rightarrow> (User \<Rightarrow> outcome) \<Rightarrow> outcome" where
  "login_required current_user db f =
     (case current_user of
        None \<Rightarrow> reply db [(''Please log in to access this page.'', ''info'')] (Redirect Auth_login)
      | Some u \<Rightarrow> f u)"

definition ngo_required :: "User \<Rightarrow> database \<Rightarrow> outcome \<Rightarrow> outcome" where
  "ngo_required u db body =
     (if \<not> is_ngo u
      then reply db [(''Access denied. NGO account required.'', ''error'')] (Redirect Main_index)
      else body)"

definition donor_required :: "User \<Rightarrow> database \<Rightarrow> outcome \<Rightarrow> outcome" where
  "donor_required u db body =
     (if \<not> is_donor u
      then reply db [(''Access denied. Donor account required.'', ''error'')] (Redirect Main_index)
      else body)"

section \<open>The NGO routes\<close>

text \<open>
  The four routes of \<^verbatim>\<open>routes/ngo.py\<close> that write: \<^verbatim>\<open>claim_donation\<close>,
  \<^verbatim>\<open>update_claim\<close>, \<^verbatim>\<open>cancel_claim\<close> and \<^verbatim>\<open>complete_pickup\<close>. A route looks
  its record up first; \<^verbatim>\<open>get_or_404\<close> and \<^verbatim>\<open>first_or_404\<close> answer \<open>Not_found\<close> when
  there is none.
\<close>

record ClaimForm =
  cf_notes :: string

record UpdateClaimForm =
  uf_status :: string
  uf_notes :: string

definition validate_ClaimForm :: "ClaimForm \<Rightarrow> bool" where
  "validate_ClaimForm form = (length (cf_notes form) \<le> 300)"

text \<open>
  The status field of the update form is a select over the five claim statuses: a value
  outside the choices fails validation, and the empty value fails \<^verbatim>\<open>DataRequired\<close>.
\<close>

definition claim_status_of :: "string \<Rightarrow> claim_status option" where
  "claim_status_of s =
     (if s = ''claimed'' then Some C_claimed
      else if s = ''scheduled'' then Some C_scheduled
      else if s = ''picked_up'' then Some C_picked_up
      else if s = ''completed'' then Some C_completed
      else if s = ''cancelled'' then Some C_cancelled
      else None)"

definition validate_UpdateClaimForm :: "UpdateClaimForm \<Rightarrow> bool" where
  "validate_UpdateClaimForm form =
     (claim_status_of (uf_status form) \<noteq> None \<and> length (uf_notes form) \<le> 300)"

definition claim_donation ::
  "int \<Rightarrow> int \<Rightarrow> User option \<Rightarrow> nat \<Rightarrow> ClaimForm request \<Rightarrow> database \<Rightarrow> outcome" where
  "claim_donation today now current_user i req db =
     login_required current_user db (\<lambda>u. ngo_required u db
       (case get_donation db i of
          None \<Rightarrow> reply db [] Not_found
        | Some donation \<Rightarrow>
            if \<not> can_be_claimed today donation
            then reply db [(''This donation is no longer available for claiming.'', ''error'')]
                   (Redirect (Ngo_view_donation i))
            else if claim_of db donation \<noteq> None
            then reply db [(''This donation has already been claimed by another NGO.'', ''error'')]
                   (Redirect (Ngo_view_donation i))
            else (case req of
                    GET \<Rightarrow> reply db [] (Render_template ''ngo/claim_donation.html'')
                  | POST form \<Rightarrow>
                      if \<not> validate_ClaimForm form
                      then reply db [] (Render_template ''ngo/claim_donation.html'')
                      else
                        let claim = \<lparr>c_id = next_rowid (map c_id (claims db)),
                                     c_donation_id = d_id donation,
                                     c_ngo_id = u_id u,
                                     c_status = C_claimed,
                                     c_claimed_at = now,
                                     c_pickup_scheduled_at = None,
                                     c_completed_at = None,
                                     c_notes = (if cf_notes form \<noteq> [] then Some (strip (cf_notes form)) else None)\<rparr>;
                            donation' = donation\<lparr>d_status := D_claimed\<rparr>
                        in (case insert_claim claim db of
                              Some db1 \<Rightarrow>
                                reply (db1\<lparr>food_donations := write_donation now donation' (food_donations db1)\<rparr>)
                                  [(''Successfully claimed '' @ dq @ d_title donation @ dq
                                      @ ''! Please coordinate pickup with the donor.'', ''success'')]
                                  (Redirect (Ngo_view_claim (c_id claim)))
                            | None \<Rightarrow>
                                reply db [(''An error occurred while claiming the donation.'', ''error'')]
                                  (Render_template ''ngo/claim_donation.html'')))))"

definition update_claim ::
  "int \<Rightarrow> User option \<Rightarrow> nat \<Rightarrow> UpdateClaimForm request \<Rightarrow> database \<Rightarrow> outcome" where
  "update_claim now current_user i req db =
     login_required current_user db (\<lambda>u. ngo_required u db
       (case get_own_claim db i (u_id u) of
          None \<Rightarrow> reply db [] Not_found
        | Some claim \<Rightarrow>
            (case req of
               GET \<Rightarrow> reply db [] (Render_template ''ngo/update_claim.html'')
             | POST form \<Rightarrow>
                 (case claim_status_of (uf_status form) of
                    None \<Rightarrow> reply db [] (Render_template ''ngo/update_claim.html'')
                  | Some new_status \<Rightarrow>
                      if \<not> validate_UpdateClaimForm form
                      then reply db [] (Render_template ''ngo/update_claim.html'')
                      else
                        let old_status = c_status claim;
                            claim1 = claim\<lparr>c_status := new_status,
                                           c_notes := (if uf_notes form \<noteq> []
                                                       then Some (strip (uf_notes form))
                                                       else c_notes claim)\<rparr>;
                            s = (if new_status = C_completed \<and> old_status \<noteq> C_completed
                                 then mark_as_completed now (claim1, donation_of db claim)
                                 else if new_status = C_cancelled
                                 then Claim_cancel_claim (Some (uf_notes form)) (claim1, donation_of db claim)
                                 else (claim1, None))
                        in reply (commit_session now s db)
                             [(''Claim status updated successfully!'', ''success'')]
                             (Redirect (Ngo_view_claim i))))))"

text \<open>
  The direct cancel action reads the form field \<^verbatim>\<open>reason\<close> with the default
  \<^verbatim>\<open>'Cancelled by NGO'\<close>; \<open>reason = None\<close> is a request without the field.
\<close>

definition cancel_claim ::
  "int \<Rightarrow> User option \<Rightarrow> nat \<Rightarrow> string option \<Rightarrow> database \<Rightarrow> outcome" where
  "cancel_claim now current_user i reason db =
     login_required current_user db (\<lambda>u. ngo_required u db
       (case get_own_claim db i (u_id u) of
          None \<Rightarrow> reply db [] Not_found
        | Some claim \<Rightarrow>
            if \<not> can_be_cancelled claim
            then reply db [(''This claim cannot be cancelled at its current status.'', ''error'')]
                   (Redirect (Ngo_view_claim i))
            else
              let r = (case reason of None \<Rightarrow> ''Cancelled by NGO'' | Some x \<Rightarrow> x);
                  s = Claim_cancel_claim (Some r) (claim, donation_of db claim)
              in reply (commit_session now s db)
                   [(''Claim has been cancelled successfully.'', ''info'')]
                   (Redirect Ngo_my_claims)))"

text \<open>
  \<^verbatim>\<open>complete_pickup\<close> builds its success message from \<^verbatim>\<open>claim.donation.title\<close>
  after the commit and inside the \<^verbatim>\<open>try\<close>: for a claim without a donation row the
  attribute access raises, and the handler flashes the error message instead (the
  rollback after a finished commit undoes nothing).
\<close>

definition complete_pickup ::
  "int \<Rightarrow> User option \<Rightarrow> nat \<Rightarrow> database \<Rightarrow> outcome" where
  "complete_pickup now current_user i db =
     login_required current_user db (\<lambda>u. ngo_required u db
       (case get_own_claim db i (u_id u) of
          None \<Rightarrow> reply db [] Not_found
        | Some claim \<Rightarrow>
            if c_status claim = C_completed
            then reply db [(''This claim is already marked as completed.'', ''info'')]
                   (Redirect Ngo_my_claims)
            else
              let s = mark_as_completed now (claim, donation_of db claim)
              in (case snd s of
                    Some d \<Rightarrow>
                      reply (commit_session now s db)
                        [(''Successfully marked pickup of '' @ dq @ d_title d @ dq
                            @ '' as completed!'', ''success'')]
                        (Redirect Ngo_my_claims)
                  | None \<Rightarrow>
                      reply (commit_session now s db)
                        [(''An error occurred while updating the claim status.'', ''error'')]
                        (Redirect Ngo_my_claims))))"

section \<open>The donor routes\<close>

text \<open>
  The routes of \<^verbatim>\<open>routes/donor.py\<close>. \<^verbatim>\<open>dashboard\<close> and \<^verbatim>\<open>view_donation\<close> exist
  in the NGO blueprint as well, so the donor's are \<open>donor_dashboard\<close> and
  \<open>donor_view_donation\<close>. Of the dashboard only the sweep is modelled; its counts are
  read before the sweep and written nowhere.

  The donation form as it arrives: text fields are strings, and the fields that WTForms
  coerces (\<^verbatim>\<open>category_id\<close>, \<^verbatim>\<open>quantity\<close>, \<^verbatim>\<open>expiry_date\<close>) are \<open>None\<close> when the
  submitted text does not parse.
\<close>

record FoodDonationForm =
  f_title :: string
  f_description :: string
  f_category_id :: "int option"
  f_quantity :: "int option"
  f_unit :: string
  f_expiry_date :: "int option"
  f_pickup_address :: string
  f_pickup_city :: string
  f_pickup_instructions :: string
  f_is_perishable :: bool
  f_dietary_info :: string

text \<open>
  The WTForms validators: \<^verbatim>\<open>DataRequired\<close> on a string wants a value that is not empty
  after stripping, \<^verbatim>\<open>Length\<close> bounds the length of the value as submitted.
\<close>

definition DataRequired :: "string \<Rightarrow> bool" where
  "DataRequired s = (s \<noteq> [] \<and> strip s \<noteq> [])"

definition Length_between :: "nat \<Rightarrow> nat \<Rightarrow> string \<Rightarrow> bool" where
  "Length_between lo hi s = (lo \<le> length s \<and> length s \<le> hi)"

definition Length_max :: "nat \<Rightarrow> string \<Rightarrow> bool" where
  "Length_max hi s = (length s \<le> hi)"

definition unit_choices :: "string list" where
  "unit_choices = [''kg'', ''lbs'', ''pieces'', ''portions'', ''liters'', ''bottles'',
                   ''packages'', ''boxes'', ''bags'', ''other'']"

definition dietary_choices :: "string list" where
  "dietary_choices = ['''', ''vegetarian'', ''vegan'', ''gluten-free'', ''dairy-free'',
                      ''nut-free'', ''halal'', ''kosher'', ''organic'', ''other'']"

text \<open>
  The category choices are the ids of the category rows, or the single value 0 when the
  table is empty; \<^verbatim>\<open>DataRequired\<close> on the coerced integer rejects 0.
\<close>

definition category_choices :: "database \<Rightarrow> int list" where
  "category_choices db = (if categories db = [] then [0] else map cat_id (categories db))"

definition validate_expiry_date :: "int \<Rightarrow> int \<Rightarrow> bool" where
  "validate_expiry_date today e = (\<not> e < today \<and> \<not> e > today + 365)"

definition validate_FoodDonationForm :: "int \<Rightarrow> database \<Rightarrow> FoodDonationForm \<Rightarrow> bool" where
  "validate_FoodDonationForm today db form =
     (DataRequired (f_title form) \<and> Length_between 3 100 (f_title form)
      \<and> Length_max 500 (f_description form)
      \<and> (case f_category_id form of
            None \<Rightarrow> False
          | Some c \<Rightarrow> c \<in> set (category_choices db) \<and> c \<noteq> 0)
      \<and> (case f_quantity form of
            None \<Rightarrow> False
          | Some q \<Rightarrow> q \<noteq> 0 \<and> 1 \<le> q \<and> q \<le> 10000)
      \<and> f_unit form \<in> set unit_choices \<and> f_unit form \<noteq> []
      \<and> (case f_expiry_date form of
            None \<Rightarrow> False
          | Some e \<Rightarrow> validate_expiry_date today e)
      \<and> DataRequired (f_pickup_address form) \<and> Length_between 10 500 (f_pickup_address form)
      \<and> DataRequired (f_pickup_city form) \<and> Length_between 2 50 (f_pickup_city form)
      \<and> Length_max 300 (f_pickup_instructions form)
      \<and> f_dietary_info form \<in> set dietary_choices)"

definition strip_or_None :: "string \<Rightarrow> string option" where
  "strip_or_None s = (if s \<noteq> [] then Some (strip s) else None)"

text \<open>
  The dashboard sweep visits every row of the query
  \<^verbatim>\<open>filter_by(donor_id=current_user.id, status='available')\<close>, calls
  \<^verbatim>\<open>update_status_if_expired\<close> on it and counts the calls that returned true. The
  result is the count and the objects of all rows after the loop.
\<close>

fun sweep :: "int \<Rightarrow> nat \<Rightarrow> FoodDonation list \<Rightarrow> nat \<times> FoodDonation list" where
  "sweep today donor [] = (0, [])"
| "sweep today donor (d # ds) =
     (case sweep today donor ds of (n, objs) \<Rightarrow>
        if d_donor_id d = donor \<and> d_status d = D_available
        then (case update_status_if_expired today d of
                (flag, d') \<Rightarrow> ((if flag then Suc n else n), d' # objs))
        else (n, d # objs))"

definition commit_donations :: "int \<Rightarrow> FoodDonation list \<Rightarrow> FoodDonation list \<Rightarrow> FoodDonation list" where
  "commit_donations now rows objs = map (\<lambda>(r, obj). flush_donation now r obj) (zip rows objs)"

definition donor_dashboard :: "int \<Rightarrow> int \<Rightarrow> User option \<Rightarrow> database \<Rightarrow> outcome" where
  "donor_dashboard today now current_user db =
     login_required current_user db (\<lambda>u. donor_required u db
       (case sweep today (u_id u) (food_donations db) of
          (expired_count, objs) \<Rightarrow>
            reply (if expired_count > 0
                   then db\<lparr>food_donations := commit_donations now (food_donations db) objs\<rparr>
                   else db)
              [] (Render_template ''donor/dashboard.html'')))"

definition donor_view_donation :: "int \<Rightarrow> int \<Rightarrow> User option \<Rightarrow> nat \<Rightarrow> database \<Rightarrow> outcome" where
  "donor_view_donation today now current_user i db =
     login_required current_user db (\<lambda>u. donor_required u db
       (case get_own_donation db i (u_id u) of
          None \<Rightarrow> reply db [] Not_found
        | Some donation \<Rightarrow>
            (case update_status_if_expired today donation of
               (flag, donation') \<Rightarrow>
                 reply (if flag
                        then db\<lparr>food_donations := write_donation now donation' (food_donations db)\<rparr>
                        else db)
                   [] (Render_template ''donor/view_donation.html''))))"

definition add_donation ::
  "int \<Rightarrow> int \<Rightarrow> User option \<Rightarrow> FoodDonationForm request \<Rightarrow> database \<Rightarrow> outcome" where
  "add_donation today now current_user req db =
     login_required current_user db (\<lambda>u. donor_required u db
       (case req of
          GET \<Rightarrow> reply db [] (Render_template ''donor/add_donation.html'')
        | POST form \<Rightarrow>
            if \<not> validate_FoodDonationForm today db form
            then reply db [] (Render_template ''donor/add_donation.html'')
            else
              let donation = \<lparr>d_id = next_rowid (map d_id (food_donations db)),
                              d_donor_id = u_id u,
                              d_category_id = the (f_category_id form),
                              d_title = strip (f_title form),
                              d_description = strip_or_None (f_description form),
                              d_quantity = the (f_quantity form),
                              d_unit = f_unit form,
                              d_expiry_date = the (f_expiry_date form),
                              d_pickup_address = strip (f_pickup_address form),
                              d_pickup_city = strip (f_pickup_city form),
                              d_pickup_instructions = strip_or_None (f_pickup_instructions form),
                              d_status = D_available,
                              d_is_perishable = f_is_perishable form,
                              d_dietary_info = (if f_dietary_info form \<noteq> [] then Some (f_dietary_info form) else None),
                              d_created_at = now,
                              d_updated_at = now\<rparr>
              in reply (db\<lparr>food_donations := food_donations db @ [donation]\<rparr>)
                   [(''Food donation '' @ dq @ d_title donation @ dq @ '' has been added successfully!'', ''success'')]
                   (Redirect Donor_dashboard)))"

definition edit_donation ::
  "int \<Rightarrow> int \<Rightarrow> User option \<Rightarrow> nat \<Rightarrow> FoodDonationForm request \<Rightarrow> database \<Rightarrow> outcome" where
  "edit_donation today now current_user i req db =
     login_required current_user db (\<lambda>u. donor_required u db
       (case get_own_donation db i (u_id u) of
          None \<Rightarrow> reply db [] Not_found
        | Some donation \<Rightarrow>
            if \<not> can_be_edited donation
            then reply db [(''This donation cannot be edited as it has already been claimed.'', ''error'')]
                   (Redirect (Donor_view_donation i))
            else (case req of
                    GET \<Rightarrow> reply db [] (Render_template ''donor/edit_donation.html'')
                  | POST form \<Rightarrow>
                      if \<not> validate_FoodDonationForm today db form
                      then reply db [] (Render_template ''donor/edit_donation.html'')
                      else
                        let donation' = donation\<lparr>
                              d_category_id := the (f_category_id form),
                              d_title := strip (f_title form),
                              d_description := strip_or_None (f_description form),
                              d_quantity := the (f_quantity form),
                              d_unit := f_unit form,
                              d_expiry_date := the (f_expiry_date form),
                              d_pickup_address := strip (f_pickup_address form),
                              d_pickup_city := strip (f_pickup_city form),
                              d_pickup_instructions := strip_or_None (f_pickup_instructions form),
                              d_is_perishable := f_is_perishable form,
                              d_dietary_info := (if f_dietary_info form \<noteq> [] then Some (f_dietary_info form) else None)\<rparr>
                        in reply (db\<lparr>food_donations := write_donation now donation' (food_donations db)\<rparr>)
                             [(''Donation '' @ dq @ d_title donation' @ dq @ '' has been updated successfully!'', ''success'')]
                             (Redirect (Donor_view_donation i)))))"

text \<open>
  Deleting a donation deletes its row and, by the cascade of the relationship
  \<^verbatim>\<open>claim\<close> (\<^verbatim>\<open>cascade='all, delete-orphan'\<close>), the claim that references it.
\<close>

definition delete_donation :: "User option \<Rightarrow> nat \<Rightarrow> database \<Rightarrow> outcome" where
  "delete_donation current_user i db =
     login_required current_user db (\<lambda>u. donor_required u db
       (case get_own_donation db i (u_id u) of
          None \<Rightarrow> reply db [] Not_found
        | Some donation \<Rightarrow>
            if \<not> can_be_edited donation
            then reply db [(''This donation cannot be deleted as it has already been claimed.'', ''error'')]
                   (Redirect (Donor_view_donation i))
            else reply (db\<lparr>food_donations := filter (\<lambda>r. d_id r \<noteq> d_id donation) (food_donations db),
                             claims := filter (\<lambda>c. c_donation_id c \<noteq> d_id donation) (claims db)\<rparr>)
                   [(''Donation '' @ dq @ d_title donation @ dq @ '' has been deleted successfully.'', ''success'')]
                   (Redirect Donor_my_donations)))"

section \<open>Runs of the application\<close>

text \<open>
  The operations that write donations and claims, each with the clock readings, the
  visitor and the request data it receives. A run starts from a database without
  donations and claims and performs a list of operations, each on the database the one
  before committed.
\<close>

datatype operation =
    Op_claim_donation int int "User option" nat "ClaimForm request"
  | Op_update_claim int "User option" nat "UpdateClaimForm request"
  | Op_cancel_claim int "User option" nat "string option"
  | Op_complete_pickup int "User option" nat
  | Op_add_donation int int "User option" "FoodDonationForm request"
  | Op_edit_donation int int "User option" nat "FoodDonationForm request"
  | Op_delete_donation "User option" nat
  | Op_donor_dashboard int int "User option"
  | Op_donor_view_donation int int "User option" nat

fun perform :: "operation \<Rightarrow> database \<Rightarrow> database" where
  "perform (Op_claim_donation today now cu i req) db = out_db (claim_donation today now cu i req db)"
| "perform (Op_update_claim now cu i req) db = out_db (update_claim now cu i req db)"
| "perform (Op_cancel_claim now cu i reason) db = out_db (cancel_claim now cu i reason db)"
| "perform (Op_complete_pickup now cu i) db = out_db (complete_pickup now cu i db)"
| "perform (Op_add_donation today now cu req) db = out_db (add_donation today now cu req db)"
| "perform (Op_edit_donation today now cu i req) db = out_db (edit_donation today now cu i req db)"
| "perform (Op_delete_donation cu i) db = out_db (delete_donation cu i db)"
| "perform (Op_donor_dashboard today now cu) db = out_db (donor_dashboard today now cu db)"
| "perform (Op_donor_view_donation today now cu i) db = out_db (donor_view_donation today now cu i db)"

fun run :: "database \<Rightarrow> operation list \<Rightarrow> database" where
  "run db [] = db"
| "run db (op # ops) = run (perform op db) ops"

definition initial :: "database \<Rightarrow> bool" where
  "initial db = (food_donations db = [] \<and> claims db = [])"

text \<open>
  The operations that cancel a claim: the direct cancel action, and an update-claim
  submission with target status \<^verbatim>\<open>cancelled\<close>.
\<close>

fun cancels :: "operation \<Rightarrow> bool" where
  "cancels (Op_cancel_claim now cu i reason) = True"
| "cancels (Op_update_claim now cu i (POST form)) = (uf_status form = ''cancelled'')"
| "cancels _ = False"

text \<open>
  Donation \<open>i\<close> is kept along a run: it has a row in every state that the run goes
  through, that is, no operation of the run deletes it.
\<close>

fun donation_kept :: "nat \<Rightarrow> database \<Rightarrow> operation list \<Rightarrow> bool" where
  "donation_kept i db [] = (get_donation db i \<noteq> None)"
| "donation_kept i db (op # ops) = (get_donation db i \<noteq> None \<and> donation_kept i (perform op db) ops)"

text \<open>
  What every operation keeps true of the keys: primary keys are unique, and a claim
  references a donation that exists.
\<close>

definition pk_invariant :: "database \<Rightarrow> bool" where
  "pk_invariant db =
     (distinct (map d_id (food_donations db))
      \<and> distinct (map c_id (claims db))
      \<and> (\<forall>c \<in> set (claims db). c_donation_id c \<in> set (map d_id (food_donations db))))"

definition same_ids :: "database \<Rightarrow> database \<Rightarrow> bool" where
  "same_ids db db' =
     (map d_id (food_donations db') = map d_id (food_donations db)
      \<and> map c_id (claims db') = map c_id (claims db)
      \<and> map c_donation_id (claims db') = map c_donation_id (claims db))"

text \<open>The invariant of claim C1: a donation that has a claim is claimed or completed.\<close>

definition claimed_or_completed :: "database \<Rightarrow> bool" where
  "claimed_or_completed db =
     (\<forall>d \<in> set (food_donations db). claim_of db d \<noteq> None \<longrightarrow> d_status d \<in> {D_claimed, D_completed})"

section \<open>The authentication routes\<close>

text \<open>
  Two libraries stay parameters of the routes: the address check of the \<^verbatim>\<open>Email\<close>
  validator (\<open>valid_email\<close>) and the bcrypt functions \<^verbatim>\<open>generate_password_hash\<close> and
  \<^verbatim>\<open>check_password_hash\<close>. An authentication route also returns the user that
  \<^verbatim>\<open>login_user\<close> signed in, if any.
\<close>

record auth_outcome = outcome +
  logged_in :: "User option"

definition auth_reply ::
  "database \<Rightarrow> (string \<times> string) list \<Rightarrow> response \<Rightarrow> User option \<Rightarrow> auth_outcome" where
  "auth_reply db fl r u = \<lparr>out_db = db, flashes = fl, response = r, logged_in = u\<rparr>"

record LoginForm =
  lf_email :: string
  lf_password :: string
  lf_remember_me :: bool

definition validate_LoginForm :: "(string \<Rightarrow> bool) \<Rightarrow> LoginForm \<Rightarrow> bool" where
  "validate_LoginForm valid_email form =
     (DataRequired (lf_email form) \<and> valid_email (lf_email form) \<and> DataRequired (lf_password form))"

definition check_password :: "(string \<Rightarrow> string \<Rightarrow> bool) \<Rightarrow> User \<Rightarrow> string \<Rightarrow> bool" where
  "check_password check_password_hash u password = check_password_hash (u_password_hash u) password"

text \<open>
  \<^verbatim>\<open>login\<close>: \<open>next\<close> is the query parameter \<^verbatim>\<open>next\<close> (\<open>None\<close> when the URL has
  none). The route redirects to it whenever it is not empty.
\<close>

definition login ::
  "(string \<Rightarrow> bool) \<Rightarrow> (string \<Rightarrow> string \<Rightarrow> bool) \<Rightarrow> User option \<Rightarrow> string option
     \<Rightarrow> LoginForm request \<Rightarrow> database \<Rightarrow> auth_outcome" where
  "login valid_email check_password_hash current_user next req db =
     (if current_user \<noteq> None then auth_reply db [] (Redirect Main_dashboard) current_user
      else case req of
        GET \<Rightarrow> auth_reply db [] (Render_template ''auth/login.html'') None
      | POST form \<Rightarrow>
          if \<not> validate_LoginForm valid_email form
          then auth_reply db [] (Render_template ''auth/login.html'') None
          else
            (case find (\<lambda>u. u_email u = lower (lf_email form)) (users db) of
               None \<Rightarrow>
                 auth_reply db [(''Invalid email or password. Please try again.'', ''error'')]
                   (Render_template ''auth/login.html'') None
             | Some user \<Rightarrow>
                 if \<not> check_password check_password_hash user (lf_password form)
                 then auth_reply db [(''Invalid email or password. Please try again.'', ''error'')]
                        (Render_template ''auth/login.html'') None
                 else if \<not> u_is_active user
                 then auth_reply db
                        [(''Your account has been deactivated. Please contact support.'', ''error'')]
                        (Redirect Auth_login) None
                 else
                   auth_reply db [(''Welcome back, '' @ get_display_name user @ ''!'', ''success'')]
                     (case next of
                        None \<Rightarrow> Redirect Main_dashboard
                      | Some next_page \<Rightarrow>
                          if next_page \<noteq> [] then Redirect (Url next_page) else Redirect Main_dashboard)
                     (Some user)))"

record RegistrationForm =
  rf_username :: string
  rf_email :: string
  rf_password :: string
  rf_confirm_password :: string
  rf_user_type :: string
  rf_full_name :: string
  rf_phone :: string
  rf_address :: string
  rf_city :: string
  rf_organization_name :: string
  rf_registration_number :: string

text \<open>
  Validation of one field: the validators of the field run in order, each giving the
  messages it raises and whether it stops the chain. A plain \<^verbatim>\<open>ValidationError\<close> adds
  its message to the errors of the field and the chain goes on. \<^verbatim>\<open>DataRequired\<close> is
  the one validator here that stops the chain: it empties the errors of the field
  (\<^verbatim>\<open>field.errors[:] = []\<close>) before it raises \<^verbatim>\<open>StopValidation\<close>, so that its message
  is the only one left.
\<close>

type_synonym validator = "string list \<times> bool"

definition passes :: validator where
  "passes = ([], False)"

definition raises :: "string \<Rightarrow> validator" where
  "raises msg = ([msg], False)"

definition stops :: "string \<Rightarrow> validator" where
  "stops msg = ([msg], True)"

fun chain_from :: "string list \<Rightarrow> validator list \<Rightarrow> string list" where
  "chain_from errors [] = errors"
| "chain_from errors ((msgs, stop) # vs) = (if stop then msgs else chain_from (errors @ msgs) vs)"

definition run_chain :: "validator list \<Rightarrow> string list" where
  "run_chain vs = chain_from [] vs"

definition v_DataRequired :: "string \<Rightarrow> string \<Rightarrow> validator" where
  "v_DataRequired msg s = (if DataRequired s then passes else stops msg)"

definition v_Length :: "nat \<Rightarrow> nat option \<Rightarrow> string \<Rightarrow> string \<Rightarrow> validator" where
  "v_Length lo hi msg s =
     (if lo \<le> length s \<and> (case hi of None \<Rightarrow> True | Some h \<Rightarrow> length s \<le> h) then passes else raises msg)"

definition v_check :: "bool \<Rightarrow> string \<Rightarrow> validator" where
  "v_check ok msg = (if ok then passes else raises msg)"

text \<open>
  The errors of the registration form, field by field. The choice of \<^verbatim>\<open>user_type\<close>
  is checked by \<^verbatim>\<open>SelectField.pre_validate\<close>, before the validators. The inline validators
  \<^verbatim>\<open>validate_organization_name\<close> and \<^verbatim>\<open>validate_registration_number\<close> raise when the
  user type is \<^verbatim>\<open>ngo\<close> and \<^verbatim>\<open>not field.data\<close>, that is when the submitted text is
  empty.
\<close>

definition validate_username :: "database \<Rightarrow> string \<Rightarrow> validator" where
  "validate_username db s =
     v_check (find (\<lambda>u. u_username u = lower s) (users db) = None)
       ''Username is already taken. Please choose a different one.''"

definition validate_email :: "database \<Rightarrow> string \<Rightarrow> validator" where
  "validate_email db s =
     v_check (find (\<lambda>u. u_email u = lower s) (users db) = None)
       ''Email is already registered. Please use a different email or login.''"

definition validate_organization_name :: "string \<Rightarrow> string \<Rightarrow> validator" where
  "validate_organization_name user_type s =
     (if user_type = ''ngo'' \<and> s = [] then raises ''Organization name is required for NGOs.'' else passes)"

definition validate_registration_number :: "string \<Rightarrow> string \<Rightarrow> validator" where
  "validate_registration_number user_type s =
     (if user_type = ''ngo'' \<and> s = [] then raises ''Registration number is required for NGOs.'' else passes)"

definition RegistrationForm_errors ::
  "(string \<Rightarrow> bool) \<Rightarrow> database \<Rightarrow> RegistrationForm \<Rightarrow> (string \<times> string list) list" where
  "RegistrationForm_errors valid_email db form =
     [(''username'', run_chain
         [v_DataRequired ''Username is required.'' (rf_username form),
          v_Length 3 (Some 20) ''Username must be between 3 and 20 characters.'' (rf_username form),
          validate_username db (rf_username form)]),
      (''email'', run_chain
         [v_DataRequired ''Email is required.'' (rf_email form),
          v_check (valid_email (rf_email form)) ''Please enter a valid email address.'',
          validate_email db (rf_email form)]),
      (''password'', run_chain
         [v_DataRequired ''Password is required.'' (rf_password form),
          v_Length 6 None ''Password must be at least 6 characters long.'' (rf_password form)]),
      (''confirm_password'', run_chain
         [v_DataRequired ''Please confirm your password.'' (rf_confirm_password form),
          v_check (rf_confirm_password form = rf_password form) ''Passwords must match.'']),
      (''user_type'', run_chain
         [v_check (rf_user_type form \<in> {''donor'', ''ngo''}) ''Not a valid choice.'',
          v_DataRequired ''Please select your user type.'' (rf_user_type form)]),
      (''full_name'', run_chain
         [v_DataRequired ''Full name is required.'' (rf_full_name form),
          v_Length 2 (Some 100) ''Name must be between 2 and 100 characters.'' (rf_full_name form)]),
      (''phone'', run_chain
         [v_Length 0 (Some 20) ''Phone number cannot exceed 20 characters.'' (rf_phone form)]),
      (''address'', run_chain
         [v_Length 0 (Some 500) ''Address cannot exceed 500 characters.'' (rf_address form)]),
      (''city'', run_chain
         [v_Length 0 (Some 50) ''City name cannot exceed 50 characters.'' (rf_city form)]),
      (''organization_name'', run_chain
         [v_Length 0 (Some 100) ''Organization name cannot exceed 100 characters.'' (rf_organization_name form),
          validate_organization_name (rf_user_type form) (rf_organization_name form)]),
      (''registration_number'', run_chain
         [v_Length 0 (Some 50) ''Registration number cannot exceed 50 characters.'' (rf_registration_number form),
          validate_registration_number (rf_user_type form) (rf_registration_number form)])]"

definition validate_RegistrationForm :: "(string \<Rightarrow> bool) \<Rightarrow> database \<Rightarrow> RegistrationForm \<Rightarrow> bool" where
  "validate_RegistrationForm valid_email db form =
     (\<forall>(field, errors) \<in> set (RegistrationForm_errors valid_email db form). errors = [])"

text \<open>
  Inserting a user: \<^verbatim>\<open>users.username\<close> and \<^verbatim>\<open>users.email\<close> are unique, so the
  insert raises (the result is \<open>None\<close>) when a row has the same username or email.
\<close>

definition insert_user :: "User \<Rightarrow> database \<Rightarrow> database option" where
  "insert_user u db =
     (if \<exists>r \<in> set (users db). u_username r = u_username u \<or> u_email r = u_email u then None
      else Some (db\<lparr>users := users db @ [u], next_user_id := Suc (next_user_id db)\<rparr>))"

definition register ::
  "(string \<Rightarrow> bool) \<Rightarrow> (string \<Rightarrow> string) \<Rightarrow> int \<Rightarrow> User option
     \<Rightarrow> RegistrationForm request \<Rightarrow> database \<Rightarrow> auth_outcome" where
  "register valid_email generate_password_hash now current_user req db =
     (if current_user \<noteq> None then auth_reply db [] (Redirect Main_dashboard) current_user
      else case req of
        GET \<Rightarrow> auth_reply db [] (Render_template ''auth/register.html'') None
      | POST form \<Rightarrow>
          if \<not> validate_RegistrationForm valid_email db form
          then auth_reply db [] (Render_template ''auth/register.html'') None
          else
            let is_ngo_form = (rf_user_type form = ''ngo'');
                user = \<lparr>u_id = next_user_id db,
                        u_username = strip (lower (rf_username form)),
                        u_email = strip (lower (rf_email form)),
                        u_password_hash = generate_password_hash (rf_password form),
                        u_user_type = (if is_ngo_form then Ngo else Donor),
                        u_full_name = strip (rf_full_name form),
                        u_phone = strip_or_None (rf_phone form),
                        u_address = strip_or_None (rf_address form),
                        u_city = strip_or_None (rf_city form),
                        u_organization_name =
                          (if is_ngo_form then Some (strip (rf_organization_name form)) else None),
                        u_registration_number =
                          (if is_ngo_form then Some (strip (rf_registration_number form)) else None),
                        u_is_active = True,
                        u_created_at = now,
                        u_updated_at = now\<rparr>
            in (case insert_user user db of
                  Some db' \<Rightarrow>
                    auth_reply db'
                      [(''Registration successful! Welcome to Food Waste Tracker, ''
                          @ get_display_name user @ ''.'', ''success'')]
                      (Redirect Main_dashboard) (Some user)
                | None \<Rightarrow>
                    auth_reply db
                      [(''An error occurred during registration. Please try again.'', ''error'')]
                      (Render_template ''auth/register.html'') None))"

text \<open>
  The static helper \<^verbatim>\<open>User.validate_ngo_fields\<close> of \<^verbatim>\<open>models/user.py\<close>, which no route
  calls: it rejects a name or number that is absent, empty or blank after stripping.
\<close>

definition validate_ngo_fields :: "string option \<Rightarrow> string option \<Rightarrow> bool \<times> string" where
  "validate_ngo_fields organization_name registration_number =
     (if (case organization_name of None \<Rightarrow> True | Some n \<Rightarrow> n = [] \<or> strip n = [])
      then (False, ''Organization name is required for NGOs'')
      else if (case registration_number of None \<Rightarrow> True | Some n \<Rightarrow> n = [] \<or> strip n = [])
      then (False, ''Registration number is required for NGOs'')
      else (True, ''Valid''))"

text \<open>
  What the specification could mean by a safe \<open>next\<close> target, for comparison with the
  route (which has no such test): a path on this site, that is a text that begins with
  one slash.
\<close>

definition spec_safe_next :: "string \<Rightarrow> bool" where
  "spec_safe_next target =
     (case target of
        c # rest \<Rightarrow> c = CHR ''/'' \<and> (case rest of [] \<Rightarrow> True | c' # _ \<Rightarrow> c' \<noteq> CHR ''/'' \<and> c' \<noteq> CHR 0x5C)
      | [] \<Rightarrow> False)"

section \<open>The public browse listing\<close>

text \<open>
  \<^verbatim>\<open>column.ilike(pattern)\<close> is the SQL operator LIKE without regard to letter case: in
  the pattern \<^verbatim>\<open>%\<close> stands for any text and \<^verbatim>\<open>_\<close> for any one character. No escape
  character is declared by the application. \<open>like_match pattern text\<close> is the match with
  regard to case.
\<close>

fun like_match :: "string \<Rightarrow> string \<Rightarrow> bool" where
  "like_match [] [] = True"
| "like_match [] (x # xs) = False"
| "like_match (c # p) [] = (c = CHR ''%'' \<and> like_match p [])"
| "like_match (c # p) (x # xs) =
     (if c = CHR ''%'' then like_match p (x # xs) \<or> like_match (c # p) xs
      else (c = CHR ''_'' \<or> c = x) \<and> like_match p xs)"

definition ilike :: "string \<Rightarrow> string \<Rightarrow> bool" where
  "ilike text pattern = like_match (lower pattern) (lower text)"

text \<open>
  \<^verbatim>\<open>FoodDonation.get_available_donations\<close>: the filters that are given and truthy, the
  expiry filter, and the order by expiry date ascending and creation time descending
  (rows that agree on both keep the order of the table).
\<close>

definition get_available_donations ::
  "int \<Rightarrow> string option \<Rightarrow> int option \<Rightarrow> string option \<Rightarrow> database \<Rightarrow> FoodDonation list" where
  "get_available_donations today city category_id search db =
     sort_key (\<lambda>d. (d_expiry_date d, - d_created_at d))
       (filter (\<lambda>d. d_status d = D_available
                  \<and> (case city of
                        None \<Rightarrow> True
                      | Some c \<Rightarrow> c = [] \<or> ilike (d_pickup_city d) (''%'' @ c @ ''%''))
                  \<and> (case category_id of
                        None \<Rightarrow> True
                      | Some k \<Rightarrow> k = 0 \<or> d_category_id d = k)
                  \<and> (case search of
                        None \<Rightarrow> True
                      | Some s \<Rightarrow> s = []
                          \<or> ilike (d_title d) (''%'' @ s @ ''%'')
                          \<or> (case d_description d of
                                None \<Rightarrow> False
                              | Some t \<Rightarrow> ilike t (''%'' @ s @ ''%'')))
                  \<and> d_expiry_date d \<ge> today)
          (food_donations db))"

text \<open>
  The query parameters of \<^verbatim>\<open>/browse\<close> with their defaults applied: the texts default
  to the empty string, \<^verbatim>\<open>category_id\<close> to 0 and \<^verbatim>\<open>page\<close> to 1.
\<close>

record browse_args =
  q_search :: string
  q_category_id :: int
  q_city :: string
  q_dietary_info :: string
  q_page :: int

text \<open>
  \<^verbatim>\<open>query.paginate(page, per_page, error_out=False)\<close>: a page number below 1 is read
  as 1; the items are those at the offsets of the page.
\<close>

definition paginate :: "int \<Rightarrow> nat \<Rightarrow> 'a list \<Rightarrow> 'a list" where
  "paginate page per_page xs =
     (let p = (if page < 1 then 1 else nat page)
      in take per_page (drop ((p - 1) * per_page) xs))"

definition browse_query :: "int \<Rightarrow> browse_args \<Rightarrow> database \<Rightarrow> FoodDonation list" where
  "browse_query today args db =
     (let query = get_available_donations today
                    (if q_city args \<noteq> [] then Some (q_city args) else None)
                    (if q_category_id args > 0 then Some (q_category_id args) else None)
                    (if q_search args \<noteq> [] then Some (q_search args) else None)
                    db
      in if q_dietary_info args \<noteq> []
         then filter (\<lambda>d. d_dietary_info d = Some (q_dietary_info args)) query
         else query)"

definition browse_donations :: "int \<Rightarrow> browse_args \<Rightarrow> database \<Rightarrow> FoodDonation list" where
  "browse_donations today args db = paginate (q_page args) 12 (browse_query today args db)"

text \<open>
  The listing as claim C9 words it: \<open>icontains text part\<close> is the case-insensitive
  substring test, and \<open>matches_filters\<close> holds of a donation that is available, not
  expired, and matches every supplied filter.
\<close>

fun is_substring :: "string \<Rightarrow> string \<Rightarrow> bool" where
  "is_substring part [] = (part = [])"
| "is_substring part (x # xs) = (take (length part) (x # xs) = part \<or> is_substring part xs)"

definition icontains :: "string \<Rightarrow> string \<Rightarrow> bool" where
  "icontains text part = is_substring (lower part) (lower text)"

definition matches_filters :: "int \<Rightarrow> browse_args \<Rightarrow> FoodDonation \<Rightarrow> bool" where
  "matches_filters today args d =
     (d_status d = D_available \<and> d_expiry_date d \<ge> today
      \<and> (q_city args = [] \<or> icontains (d_pickup_city d) (q_city args))
      \<and> (q_category_id args \<le> 0 \<or> d_category_id d = q_category_id args)
      \<and> (q_search args = [] \<or> icontains (d_title d) (q_search args)
           \<or> (case d_description d of None \<Rightarrow> False | Some t \<Rightarrow> icontains t (q_search args)))
      \<and> (q_dietary_info args = [] \<or> d_dietary_info d = Some (q_dietary_info args)))"

text \<open>A text without the characters that LIKE or a database may read as special.\<close>

definition like_plain :: "string \<Rightarrow> bool" where
  "like_plain s = (CHR ''%'' \<notin> set s \<and> CHR ''_'' \<notin> set s \<and> CHR 0x5C \<notin> set s)"

section \<open>Example data\<close>

text \<open>
  The scenario of the specification: a donor, two NGOs, a donation of bread that is past
  its expiry date on day 110, a donation of milk, and the claim of the first NGO on the
  bread.
\<close>

definition donor_user :: User where
  "donor_user = \<lparr>u_id = 1, u_username = ''greenrest'', u_email = ''g@x.com'',
     u_password_hash = ''hash'', u_user_type = Donor, u_full_name = ''Green Restaurant'',
     u_phone = None, u_address = None, u_city = None,
     u_organization_name = None, u_registration_number = None,
     u_is_active = True, u_created_at = 5, u_updated_at = 5\<rparr>"

definition ngo_user :: User where
  "ngo_user = \<lparr>u_id = 2, u_username = ''helpinghands'', u_email = ''hh@x.org'',
     u_password_hash = ''hash'', u_user_type = Ngo, u_full_name = ''Helping Hands'',
     u_phone = None, u_address = None, u_city = Some ''Springfield'',
     u_organization_name = Some ''Helping Hands'', u_registration_number = Some ''REG123'',
     u_is_active = True, u_created_at = 10, u_updated_at = 10\<rparr>"

definition other_ngo :: User where
  "other_ngo = ngo_user\<lparr>u_id := 3, u_username := ''foodbank'', u_email := ''fb@x.org'',
     u_full_name := ''Food Bank'', u_organization_name := Some ''Food Bank'',
     u_registration_number := Some ''REG456''\<rparr>"

definition bread :: FoodDonation where
  "bread = \<lparr>d_id = 1, d_donor_id = 1, d_category_id = 2, d_title = ''Surplus Bread'',
     d_description = None, d_quantity = 20, d_unit = ''pieces'', d_expiry_date = 103,
     d_pickup_address = ''123 Long Enough Address'', d_pickup_city = ''Springfield'',
     d_pickup_instructions = None, d_status = D_available, d_is_perishable = True,
     d_dietary_info = None, d_created_at = 20, d_updated_at = 20\<rparr>"

definition milk :: FoodDonation where
  "milk = bread\<lparr>d_id := 2, d_category_id := 3, d_title := ''Fresh Milk'', d_unit := ''liters'',
                 d_expiry_date := 120\<rparr>"

definition bread_form :: FoodDonationForm where
  "bread_form = \<lparr>f_title = ''Surplus Bread'', f_description = [], f_category_id = Some 2,
     f_quantity = Some 20, f_unit = ''pieces'', f_expiry_date = Some 103,
     f_pickup_address = ''123 Long Enough Address'', f_pickup_city = ''Springfield'',
     f_pickup_instructions = [], f_is_perishable = True, f_dietary_info = []\<rparr>"

definition bread_claim :: Claim where
  "bread_claim = \<lparr>c_id = 1, c_donation_id = 1, c_ngo_id = 2, c_status = C_claimed,
     c_claimed_at = 30, c_pickup_scheduled_at = None, c_completed_at = None,
     c_notes = Some ''Please call ahead''\<rparr>"

definition db_empty :: database where
  "db_empty = \<lparr>users = [donor_user, ngo_user, other_ngo],
     categories = [\<lparr>cat_id = 2, cat_name = ''Bakery Items''\<rparr>, \<lparr>cat_id = 3, cat_name = ''Dairy Products''\<rparr>],
     food_donations = [],
     claims = [],
     next_user_id = 4\<rparr>"

definition db_listed :: database where
  "db_listed = db_empty\<lparr>food_donations := [bread, milk]\<rparr>"

definition db_claimed :: database where
  "db_claimed = db_empty\<lparr>food_donations := [bread\<lparr>d_status := D_claimed, d_updated_at := 30\<rparr>],
     claims := [bread_claim]\<rparr>"

definition db_picked_up :: database where
  "db_picked_up = db_claimed\<lparr>claims := [bread_claim\<lparr>c_status := C_picked_up\<rparr>]\<rparr>"

text \<open>
  The run that leads to \<open>db_claimed\<close>: on day 100 the donor lists the bread and the
  first NGO claims it.
\<close>

definition listing_and_claim :: "operation list" where
  "listing_and_claim =
     [Op_add_donation 100 20 (Some donor_user) (POST bread_form),
      Op_claim_donation 100 30 (Some ngo_user) 1 (POST \<lparr>cf_notes = ''Please call ahead''\<rparr>)]"

text \<open>The example run continued: on day 101 the NGO cancels its claim.\<close>

definition cancel_scenario :: "operation list" where
  "cancel_scenario = listing_and_claim @ [Op_cancel_claim 40 (Some ngo_user) 1 None]"

definition db_cancelled :: database where
  "db_cancelled = db_claimed\<lparr>
     food_donations := [bread\<lparr>d_updated_at := 40\<rparr>],
     claims := [bread_claim\<lparr>c_status := C_cancelled, c_notes := Some ''Cancelled: Cancelled by NGO''\<rparr>]\<rparr>"

text \<open>
  A registration of an NGO whose organization name is three spaces, and the login of the
  donor with a \<open>next\<close> parameter that points to another site.
\<close>

definition blank_ngo_form :: RegistrationForm where
  "blank_ngo_form = \<lparr>rf_username = ''newngo'', rf_email = ''new@x.org'',
     rf_password = ''secret1'', rf_confirm_password = ''secret1'', rf_user_type = ''ngo'',
     rf_full_name = ''New Org Contact'', rf_phone = [], rf_address = [], rf_city = [],
     rf_organization_name = ''   '', rf_registration_number = ''REG789''\<rparr>"

definition blank_ngo_user :: "string \<Rightarrow> User" where
  "blank_ngo_user password_hash = \<lparr>u_id = 4, u_username = ''newngo'', u_email = ''new@x.org'',
     u_password_hash = password_hash, u_user_type = Ngo, u_full_name = ''New Org Contact'',
     u_phone = None, u_address = None, u_city = None,
     u_organization_name = Some [], u_registration_number = Some ''REG789'',
     u_is_active = True, u_created_at = 60, u_updated_at = 60\<rparr>"

definition donor_login :: LoginForm where
  "donor_login = \<lparr>lf_email = ''g@x.com'', lf_password = ''secret1'', lf_remember_me = False\<rparr>"

text \<open>Two searches of the public listing: one for bread in a city, one with the city \<^verbatim>\<open>_\<close>.\<close>

definition bread_search :: browse_args where
  "bread_search = \<lparr>q_search = ''BREAD'', q_category_id = 0, q_city = ''spring'',
                    q_dietary_info = [], q_page = 1\<rparr>"

definition underscore_search :: browse_args where
  "underscore_search = \<lparr>q_search = [], q_category_id = 0, q_city = ''_'',
                         q_dietary_info = [], q_page = 1\<rparr>"

section \<open>Properties\<close>

subsection \<open>Queries after a commit\<close>

lemma find_write_claim:
  "find (\<lambda>c. c_id c = i \<and> c_ngo_id c = n) rows = Some claim \<Longrightarrow> c_id obj = i \<Longrightarrow> c_ngo_id obj = n
   \<Longrightarrow> find (\<lambda>c. c_id c = i \<and> c_ngo_id c = n) (write_claim obj rows) = Some obj"
  by (induction rows) (simp_all add: write_claim_def split: if_splits)

lemma d_id_flush: "d_id obj = d_id row \<Longrightarrow> d_id (flush_donation now row obj) = d_id row"
  by (simp add: flush_donation_def)

lemma find_write_donation:
  "find (\<lambda>d. d_id d = k) rows = Some d \<Longrightarrow> d_id obj = k
   \<Longrightarrow> find (\<lambda>d. d_id d = k) (write_donation now obj rows) = Some (flush_donation now d obj)"
  by (induction rows) (simp_all add: write_donation_def d_id_flush split: if_splits)

lemma find_Some_P: "find P xs = Some x \<Longrightarrow> P x"
  by (induction xs) (simp_all split: if_splits)

lemma get_own_claim_commit:
  assumes "get_own_claim db i n = Some claim" "c_id c = i" "c_ngo_id c = n"
  shows "get_own_claim (commit_session now (c, dopt) db) i n = Some c"
  using assms by (simp add: get_own_claim_def commit_session_def find_write_claim)

lemma donation_of_commit:
  assumes "donation_of db claim = Some d" "d_id obj = d_id d"
  shows "donation_of (commit_session now (c, Some obj) db) claim = Some (flush_donation now d obj)"
proof -
  from assms(1) have k: "d_id d = c_donation_id claim"
    unfolding donation_of_def by (rule find_Some_P)
  show ?thesis using assms k
    by (simp add: donation_of_def commit_session_def find_write_donation)
qed

lemma donation_of_commit_None:
  "donation_of (commit_session now (c, None) db) claim = donation_of db claim"
  by (simp add: donation_of_def commit_session_def)

lemma d_status_flush:
  "d_status (flush_donation now d (d\<lparr>d_status := s\<rparr>)) = s"
proof (cases "d\<lparr>d_status := s\<rparr> = d")
  case True
  then have "d_status (d\<lparr>d_status := s\<rparr>) = d_status d" by (rule arg_cong)
  then have "d_status d = s" by simp
  with True show ?thesis unfolding flush_donation_def by simp
next
  case False
  then show ?thesis unfolding flush_donation_def by simp
qed

lemma out_db_reply [simp]: "out_db (reply db fl r) = db"
  and flashes_reply [simp]: "flashes (reply db fl r) = fl"
  and response_reply [simp]: "response (reply db fl r) = r"
  by (simp_all add: reply_def)

subsection \<open>Complete pickup\<close>

text \<open>
  Claim C6. For a claim owned by the requesting NGO, \<^verbatim>\<open>complete_pickup\<close> on a claim that
  is already completed flashes the information message and leaves the database as it
  is; from every other status the claim row becomes completed with
  \<^verbatim>\<open>completed_at\<close> stamped, and the parent donation (when its row exists) gets status
  completed.
\<close>

theorem complete_pickup_spec:
  assumes ngo: "is_ngo u" and own: "get_own_claim db i (u_id u) = Some claim"
  shows "(c_status claim = C_completed \<longrightarrow>
            complete_pickup now (Some u) i db =
              reply db [(''This claim is already marked as completed.'', ''info'')] (Redirect Ngo_my_claims))
       \<and> (c_status claim \<noteq> C_completed \<longrightarrow>
            get_own_claim (out_db (complete_pickup now (Some u) i db)) i (u_id u)
              = Some (claim\<lparr>c_status := C_completed, c_completed_at := Some now\<rparr>)
          \<and> map_option d_status (donation_of (out_db (complete_pickup now (Some u) i db)) claim)
              = map_option (\<lambda>_. D_completed) (donation_of db claim))"
proof (intro conjI impI)
  assume "c_status claim = C_completed"
  then show "complete_pickup now (Some u) i db =
      reply db [(''This claim is already marked as completed.'', ''info'')] (Redirect Ngo_my_claims)"
    using ngo own by (simp add: complete_pickup_def login_required_def ngo_required_def)
next
  assume nc: "c_status claim \<noteq> C_completed"
  from own have ids: "c_id claim = i" "c_ngo_id claim = u_id u"
    unfolding get_own_claim_def by (auto dest: find_Some_P)
  let ?c = "claim\<lparr>c_status := C_completed, c_completed_at := Some now\<rparr>"
  have out: "out_db (complete_pickup now (Some u) i db)
      = commit_session now (?c, map_option (\<lambda>d. d\<lparr>d_status := D_completed\<rparr>) (donation_of db claim)) db"
    using ngo own nc
    by (simp add: complete_pickup_def login_required_def ngo_required_def mark_as_completed_def
        Let_def split: option.splits)
  show "get_own_claim (out_db (complete_pickup now (Some u) i db)) i (u_id u) = Some ?c"
    unfolding out using own ids by (intro get_own_claim_commit) simp_all
  show "map_option d_status (donation_of (out_db (complete_pickup now (Some u) i db)) claim)
              = map_option (\<lambda>_. D_completed) (donation_of db claim)"
  proof (cases "donation_of db claim")
    case None
    then show ?thesis unfolding out by (simp add: donation_of_commit_None)
  next
    case (Some d)
    then show ?thesis unfolding out
      by (simp add: donation_of_commit d_status_flush)
  qed
qed

theorem complete_pickup_spec_witness:
  "is_ngo ngo_user \<and> get_own_claim db_claimed 1 (u_id ngo_user) = Some bread_claim
   \<and> c_status bread_claim \<noteq> C_completed
   \<and> get_own_claim (out_db (complete_pickup 40 (Some ngo_user) 1 db_claimed)) 1 (u_id ngo_user)
       = Some (bread_claim\<lparr>c_status := C_completed, c_completed_at := Some 40\<rparr>)
   \<and> map_option d_status (donation_of (out_db (complete_pickup 40 (Some ngo_user) 1 db_claimed)) bread_claim)
       = Some D_completed"
proof -
  have h1: "is_ngo ngo_user" by (simp add: is_ngo_def ngo_user_def)
  have h2: "get_own_claim db_claimed 1 (u_id ngo_user) = Some bread_claim"
    by (simp add: get_own_claim_def db_claimed_def db_empty_def bread_claim_def ngo_user_def)
  have h3: "c_status bread_claim \<noteq> C_completed" by (simp add: bread_claim_def)
  have h4: "donation_of db_claimed bread_claim = Some (bread\<lparr>d_status := D_claimed, d_updated_at := 30\<rparr>)"
    by (simp add: donation_of_def db_claimed_def db_empty_def bread_claim_def bread_def)
  from complete_pickup_spec [OF h1 h2, of 40] h1 h2 h3 h4 show ?thesis by simp
qed

subsection \<open>Cancelling a claim\<close>

lemma own_claim_ids:
  "get_own_claim db i n = Some claim \<Longrightarrow> c_id claim = i \<and> c_ngo_id claim = n"
  unfolding get_own_claim_def by (auto dest: find_Some_P)

lemma update_claim_cancelled_out:
  assumes ngo: "is_ngo u" and own: "get_own_claim db i (u_id u) = Some claim"
    and len: "length notes \<le> 300"
  shows "update_claim now (Some u) i (POST \<lparr>uf_status = ''cancelled'', uf_notes = notes\<rparr>) db
     = reply (commit_session now
               (claim\<lparr>c_status := C_cancelled,
                      c_notes := (if notes \<noteq> [] then Some (''Cancelled: '' @ notes) else c_notes claim)\<rparr>,
                map_option (\<lambda>d. d\<lparr>d_status := D_available\<rparr>) (donation_of db claim)) db)
          [(''Claim status updated successfully!'', ''success'')]
          (Redirect (Ngo_view_claim i))"
  using ngo own len
  by (simp add: update_claim_def login_required_def ngo_required_def claim_status_of_def
      validate_UpdateClaimForm_def Claim_cancel_claim_def Let_def)

lemma cancel_claim_out:
  assumes ngo: "is_ngo u" and own: "get_own_claim db i (u_id u) = Some claim"
    and ok: "can_be_cancelled claim"
  shows "cancel_claim now (Some u) i reason db
     = reply (commit_session now
               (Claim_cancel_claim (Some (case reason of None \<Rightarrow> ''Cancelled by NGO'' | Some x \<Rightarrow> x))
                  (claim, donation_of db claim)) db)
          [(''Claim has been cancelled successfully.'', ''info'')]
          (Redirect Ngo_my_claims)"
  using ngo own ok
  by (simp add: cancel_claim_def login_required_def ngo_required_def Let_def)

lemma Claim_cancel_claim_fst:
  "c_id (fst (Claim_cancel_claim r (c, d))) = c_id c"
  "c_ngo_id (fst (Claim_cancel_claim r (c, d))) = c_ngo_id c"
  "c_status (fst (Claim_cancel_claim r (c, d))) = C_cancelled"
  by (simp_all add: Claim_cancel_claim_def Let_def split: option.splits)

text \<open>
  Claim C4. For a claim owned by the requesting NGO, a valid update-claim submission with
  target status \<^verbatim>\<open>cancelled\<close> succeeds whatever the prior status of the claim: it
  redirects to the claim with the success message and the claim row is cancelled. The
  direct cancel action succeeds when the prior status is claimed or scheduled, and from
  every other status it flashes the error and leaves the database as it is.
\<close>

theorem cancel_paths_differ:
  assumes ngo: "is_ngo u" and own: "get_own_claim db i (u_id u) = Some claim"
    and len: "length notes \<le> 300"
  shows "response (update_claim now (Some u) i (POST \<lparr>uf_status = ''cancelled'', uf_notes = notes\<rparr>) db)
           = Redirect (Ngo_view_claim i)
       \<and> flashes (update_claim now (Some u) i (POST \<lparr>uf_status = ''cancelled'', uf_notes = notes\<rparr>) db)
           = [(''Claim status updated successfully!'', ''success'')]
       \<and> map_option c_status
           (get_own_claim (out_db (update_claim now (Some u) i
                                    (POST \<lparr>uf_status = ''cancelled'', uf_notes = notes\<rparr>) db)) i (u_id u))
           = Some C_cancelled
       \<and> (c_status claim \<in> {C_claimed, C_scheduled} \<longrightarrow>
            flashes (cancel_claim now (Some u) i reason db)
              = [(''Claim has been cancelled successfully.'', ''info'')]
          \<and> map_option c_status (get_own_claim (out_db (cancel_claim now (Some u) i reason db)) i (u_id u))
              = Some C_cancelled)
       \<and> (c_status claim \<notin> {C_claimed, C_scheduled} \<longrightarrow>
            cancel_claim now (Some u) i reason db
              = reply db [(''This claim cannot be cancelled at its current status.'', ''error'')]
                  (Redirect (Ngo_view_claim i)))"
proof -
  note ids = own_claim_ids [OF own]
  have a: "map_option c_status
           (get_own_claim (out_db (update_claim now (Some u) i
                                    (POST \<lparr>uf_status = ''cancelled'', uf_notes = notes\<rparr>) db)) i (u_id u))
           = Some C_cancelled"
    unfolding update_claim_cancelled_out [OF ngo own len]
    using ids by (simp add: get_own_claim_commit [OF own])
  have b: "map_option c_status (get_own_claim (out_db (cancel_claim now (Some u) i reason db)) i (u_id u))
              = Some C_cancelled" if "can_be_cancelled claim"
  proof -
    obtain c d where cd: "Claim_cancel_claim (Some (case reason of None \<Rightarrow> ''Cancelled by NGO'' | Some x \<Rightarrow> x))
                  (claim, donation_of db claim) = (c, d)" by (cases "Claim_cancel_claim (Some (case reason of None \<Rightarrow> ''Cancelled by NGO'' | Some x \<Rightarrow> x))
                  (claim, donation_of db claim)")
    from Claim_cancel_claim_fst [of "Some (case reason of None \<Rightarrow> ''Cancelled by NGO'' | Some x \<Rightarrow> x)" claim "donation_of db claim"] cd
    have c: "c_id c = i" "c_ngo_id c = u_id u" "c_status c = C_cancelled" using ids by simp_all
    show ?thesis unfolding cancel_claim_out [OF ngo own that] cd
      using c by (simp add: get_own_claim_commit [OF own])
  qed
  have c: "cancel_claim now (Some u) i reason db
              = reply db [(''This claim cannot be cancelled at its current status.'', ''error'')]
                  (Redirect (Ngo_view_claim i))" if "\<not> can_be_cancelled claim"
    using ngo own that by (simp add: cancel_claim_def login_required_def ngo_required_def)
  show ?thesis
    using a b c cancel_claim_out [OF ngo own, of now reason]
    by (simp add: update_claim_cancelled_out [OF ngo own len] can_be_cancelled_def)
qed

theorem cancel_paths_differ_witness:
  "is_ngo ngo_user
   \<and> get_own_claim db_picked_up 1 (u_id ngo_user) = Some (bread_claim\<lparr>c_status := C_picked_up\<rparr>)
   \<and> length ''changed plans'' \<le> 300
   \<and> map_option c_status
       (get_own_claim (out_db (update_claim 40 (Some ngo_user) 1
                                (POST \<lparr>uf_status = ''cancelled'', uf_notes = ''changed plans''\<rparr>) db_picked_up))
          1 (u_id ngo_user)) = Some C_cancelled
   \<and> cancel_claim 40 (Some ngo_user) 1 None db_picked_up
       = reply db_picked_up [(''This claim cannot be cancelled at its current status.'', ''error'')]
           (Redirect (Ngo_view_claim 1))"
proof -
  have h1: "is_ngo ngo_user" by (simp add: is_ngo_def ngo_user_def)
  have h2: "get_own_claim db_picked_up 1 (u_id ngo_user) = Some (bread_claim\<lparr>c_status := C_picked_up\<rparr>)"
    by (simp add: get_own_claim_def db_picked_up_def db_claimed_def db_empty_def bread_claim_def ngo_user_def)
  have h3: "length ''changed plans'' \<le> 300" by simp
  from cancel_paths_differ [OF h1 h2 h3, of 40 None] h1 h2 h3 show ?thesis by simp
qed

text \<open>
  Claim C5 says that a cancellation through update-claim prefixes the notes of the claim
  with \<^verbatim>\<open>Cancelled: \<close> for every submitted notes value, the empty one included.
  \<^verbatim>\<open>Claim.cancel_claim\<close> writes the notes only \<^verbatim>\<open>if reason\<close>: with empty
  notes the claim keeps the notes it had, which here do not begin with the prefix.
\<close>

theorem update_claim_cancel_empty_notes_counterexample:
  "map_option c_notes
     (get_own_claim (out_db (update_claim 40 (Some ngo_user) 1
                              (POST \<lparr>uf_status = ''cancelled'', uf_notes = []\<rparr>) db_claimed))
        1 (u_id ngo_user)) = Some (Some ''Please call ahead'')
   \<and> Some ''Please call ahead'' \<noteq> Some (''Cancelled: '' @ [])
   \<and> take (length ''Cancelled: '') ''Please call ahead'' \<noteq> ''Cancelled: ''"
  by (simp add: update_claim_def login_required_def ngo_required_def claim_status_of_def
      validate_UpdateClaimForm_def Claim_cancel_claim_def Let_def get_own_claim_def
      db_claimed_def db_empty_def bread_claim_def ngo_user_def is_ngo_def commit_session_def write_claim_def
      donation_of_def reply_def)

text \<open>
  Claim C5, amended. A valid update-claim submission with target status
  \<^verbatim>\<open>cancelled\<close> sets the status of the claim to cancelled and the status of the parent
  donation (when its row exists) to available; the notes of the claim become
  \<^verbatim>\<open>Cancelled: \<close> followed by the submitted notes when these are not empty, and stay
  as they were when the submitted notes are empty.
\<close>

theorem update_claim_cancel_spec:
  assumes ngo: "is_ngo u" and own: "get_own_claim db i (u_id u) = Some claim"
    and len: "length notes \<le> 300"
  shows "get_own_claim (out_db (update_claim now (Some u) i
                                    (POST \<lparr>uf_status = ''cancelled'', uf_notes = notes\<rparr>) db)) i (u_id u)
           = Some (claim\<lparr>c_status := C_cancelled,
                      c_notes := (if notes \<noteq> [] then Some (''Cancelled: '' @ notes) else c_notes claim)\<rparr>)
       \<and> map_option d_status
             (donation_of (out_db (update_claim now (Some u) i
                                    (POST \<lparr>uf_status = ''cancelled'', uf_notes = notes\<rparr>) db)) claim)
           = map_option (\<lambda>_. D_available) (donation_of db claim)"
proof -
  note ids = own_claim_ids [OF own]
  have d: "map_option d_status (donation_of (commit_session now (c, map_option (\<lambda>d. d\<lparr>d_status := D_available\<rparr>) (donation_of db claim)) db) claim)
     = map_option (\<lambda>_. D_available) (donation_of db claim)" for c
  proof (cases "donation_of db claim")
    case None
    then show ?thesis by (simp add: donation_of_commit_None)
  next
    case (Some d)
    then show ?thesis by (simp add: donation_of_commit d_status_flush)
  qed
  show ?thesis
    unfolding update_claim_cancelled_out [OF ngo own len]
    using ids d by (simp add: get_own_claim_commit [OF own])
qed

theorem update_claim_cancel_spec_witness:
  "is_ngo ngo_user \<and> get_own_claim db_claimed 1 (u_id ngo_user) = Some bread_claim
   \<and> length ''changed plans'' \<le> 300
   \<and> get_own_claim (out_db (update_claim 40 (Some ngo_user) 1
                                (POST \<lparr>uf_status = ''cancelled'', uf_notes = ''changed plans''\<rparr>) db_claimed))
          1 (u_id ngo_user)
       = Some (bread_claim\<lparr>c_status := C_cancelled, c_notes := Some ''Cancelled: changed plans''\<rparr>)
   \<and> map_option d_status
         (donation_of (out_db (update_claim 40 (Some ngo_user) 1
                                (POST \<lparr>uf_status = ''cancelled'', uf_notes = ''changed plans''\<rparr>) db_claimed))
            bread_claim) = Some D_available"
proof -
  have h1: "is_ngo ngo_user" by (simp add: is_ngo_def ngo_user_def)
  have h2: "get_own_claim db_claimed 1 (u_id ngo_user) = Some bread_claim"
    by (simp add: get_own_claim_def db_claimed_def db_empty_def bread_claim_def ngo_user_def)
  have h3: "length ''changed plans'' \<le> 300" by simp
  have h4: "donation_of db_claimed bread_claim = Some (bread\<lparr>d_status := D_claimed, d_updated_at := 30\<rparr>)"
    by (simp add: donation_of_def db_claimed_def db_empty_def bread_claim_def bread_def)
  from update_claim_cancel_spec [OF h1 h2 h3, of 40] h1 h2 h3 h4 show ?thesis by simp
qed

subsection \<open>The lazy expiry sweep\<close>

lemma sweep_objs:
  "snd (sweep today donor rows) =
     map (\<lambda>r. if d_donor_id r = donor \<and> d_status r = D_available \<and> d_expiry_date r < today
               then r\<lparr>d_status := D_expired\<rparr> else r) rows"
  by (induction rows)
     (auto simp: update_status_if_expired_def is_expired_def split: prod.splits)

lemma sweep_count:
  "fst (sweep today donor rows) =
     length (filter (\<lambda>r. d_donor_id r = donor \<and> d_status r = D_available \<and> d_expiry_date r < today) rows)"
  by (induction rows)
     (auto simp: update_status_if_expired_def is_expired_def split: prod.splits)

lemma commit_donations_map:
  "commit_donations now rows (map f rows) = map (\<lambda>r. flush_donation now r (f r)) rows"
  by (simp add: commit_donations_def zip_map2 zip_same_conv_map)

lemma flush_expired:
  "d_status r = D_available \<Longrightarrow>
     flush_donation now r (r\<lparr>d_status := D_expired\<rparr>) = r\<lparr>d_status := D_expired, d_updated_at := now\<rparr>"
proof -
  assume a: "d_status r = D_available"
  have "r\<lparr>d_status := D_expired\<rparr> \<noteq> r"
  proof
    assume "r\<lparr>d_status := D_expired\<rparr> = r"
    then have "d_status (r\<lparr>d_status := D_expired\<rparr>) = d_status r" by (rule arg_cong)
    with a show False by simp
  qed
  then show ?thesis by (simp add: flush_donation_def)
qed

lemma flush_same: "flush_donation now r r = r"
  by (simp add: flush_donation_def)

lemma donor_dashboard_out:
  assumes "is_donor u"
  shows "out_db (donor_dashboard today now (Some u) db) =
     db\<lparr>food_donations :=
          map (\<lambda>r. if d_donor_id r = u_id u \<and> d_status r = D_available \<and> d_expiry_date r < today
                    then r\<lparr>d_status := D_expired, d_updated_at := now\<rparr> else r) (food_donations db)\<rparr>"
proof -
  let ?P = "\<lambda>r. d_donor_id r = u_id u \<and> d_status r = D_available \<and> d_expiry_date r < today"
  let ?rows = "food_donations db"
  obtain n objs where sw: "sweep today (u_id u) ?rows = (n, objs)"
    by (cases "sweep today (u_id u) ?rows")
  from sw sweep_objs [of today "u_id u" ?rows]
  have objs: "objs = map (\<lambda>r. if ?P r then r\<lparr>d_status := D_expired\<rparr> else r) ?rows" by simp
  from sw sweep_count [of today "u_id u" ?rows]
  have n: "n = length (filter ?P ?rows)" by simp
  have out: "out_db (donor_dashboard today now (Some u) db) =
      (if n > 0 then db\<lparr>food_donations := commit_donations now ?rows objs\<rparr> else db)"
    using assms sw by (simp add: donor_dashboard_def login_required_def donor_required_def)
  have fl: "commit_donations now ?rows objs =
      map (\<lambda>r. if ?P r then r\<lparr>d_status := D_expired, d_updated_at := now\<rparr> else r) ?rows"
    unfolding objs commit_donations_map
    by (rule map_cong) (simp_all add: flush_expired flush_same)
  show ?thesis
  proof (cases "n > 0")
    case True
    then show ?thesis unfolding out fl by simp
  next
    case False
    with n have "filter ?P ?rows = []" by simp
    then have "\<forall>r \<in> set ?rows. \<not> ?P r" by (simp add: filter_empty_conv)
    then have "map (\<lambda>r. if ?P r then r\<lparr>d_status := D_expired, d_updated_at := now\<rparr> else r) ?rows = ?rows"
      by (intro map_idI) auto
    with False show ?thesis unfolding out by simp
  qed
qed

lemma find_distinct_id:
  "distinct (map d_id rows) \<Longrightarrow> r \<in> set rows \<Longrightarrow> find (\<lambda>d. d_id d = d_id r) rows = Some r"
  by (induction rows) (auto simp: image_iff)

lemma get_donation_distinct:
  "distinct (map d_id (food_donations db)) \<Longrightarrow> r \<in> set (food_donations db)
     \<Longrightarrow> get_donation db (d_id r) = Some r"
  unfolding get_donation_def by (rule find_distinct_id)

lemma find_own_distinct_id:
  "distinct (map d_id rows) \<Longrightarrow> r \<in> set rows
     \<Longrightarrow> find (\<lambda>d. d_id d = d_id r \<and> d_donor_id d = n) rows = (if d_donor_id r = n then Some r else None)"
  by (induction rows) (auto simp: image_iff find_None_iff)

lemma get_own_donation_distinct:
  "distinct (map d_id (food_donations db)) \<Longrightarrow> r \<in> set (food_donations db)
     \<Longrightarrow> get_own_donation db (d_id r) n = (if d_donor_id r = n then Some r else None)"
  unfolding get_own_donation_def by (rule find_own_distinct_id)

lemma write_donation_distinct:
  assumes "distinct (map d_id rows)" "d \<in> set rows" "d_id obj = d_id d"
  shows "write_donation now obj rows = map (\<lambda>r. if r = d then flush_donation now d obj else r) rows"
  unfolding write_donation_def
proof (rule map_cong [OF refl])
  fix r assume "r \<in> set rows"
  with assms(1,2) have "d_id r = d_id d \<longleftrightarrow> r = d"
    by (auto simp: distinct_map dest: inj_onD)
  with assms(3) show "(if d_id r = d_id obj then flush_donation now r obj else r)
      = (if r = d then flush_donation now d obj else r)" by auto
qed

lemma find_Some_set: "find P xs = Some x \<Longrightarrow> x \<in> set xs"
  by (induction xs) (auto split: if_splits)

lemma donor_view_donation_noop:
  assumes "get_own_donation db i (u_id u) = Some x"
    and "\<not> (d_status x = D_available \<and> d_expiry_date x < today)"
  shows "out_db (donor_view_donation today now (Some u) i db) = db"
  using assms
  by (auto simp: donor_view_donation_def login_required_def donor_required_def
      update_status_if_expired_def is_expired_def)

lemma donor_view_donation_out:
  assumes donor: "is_donor u" and pk: "distinct (map d_id (food_donations db))"
    and row: "d \<in> set (food_donations db)" and own: "d_donor_id d = u_id u"
  shows "out_db (donor_view_donation today now (Some u) (d_id d) db) =
     db\<lparr>food_donations :=
          map (\<lambda>r. if r = d \<and> d_status r = D_available \<and> d_expiry_date r < today
                    then r\<lparr>d_status := D_expired, d_updated_at := now\<rparr> else r) (food_donations db)\<rparr>"
proof -
  have g: "get_own_donation db (d_id d) (u_id u) = Some d"
    using get_own_donation_distinct [OF pk row, of "u_id u"] own by simp
  show ?thesis
  proof (cases "d_status d = D_available \<and> d_expiry_date d < today")
    case True
    then have "out_db (donor_view_donation today now (Some u) (d_id d) db)
        = db\<lparr>food_donations := write_donation now (d\<lparr>d_status := D_expired\<rparr>) (food_donations db)\<rparr>"
      using donor g
      by (simp add: donor_view_donation_def login_required_def donor_required_def
          update_status_if_expired_def is_expired_def)
    also have "write_donation now (d\<lparr>d_status := D_expired\<rparr>) (food_donations db)
        = map (\<lambda>r. if r = d then flush_donation now d (d\<lparr>d_status := D_expired\<rparr>) else r) (food_donations db)"
      by (rule write_donation_distinct [OF pk row]) simp
    also have "\<dots> = map (\<lambda>r. if r = d \<and> d_status r = D_available \<and> d_expiry_date r < today
                    then r\<lparr>d_status := D_expired, d_updated_at := now\<rparr> else r) (food_donations db)"
      using True by (intro map_cong) (auto simp: flush_expired)
    finally show ?thesis .
  next
    case False
    then have "map (\<lambda>r. if r = d \<and> d_status r = D_available \<and> d_expiry_date r < today
                    then r\<lparr>d_status := D_expired, d_updated_at := now\<rparr> else r) (food_donations db)
               = food_donations db"
      by (intro map_idI) auto
    with donor_view_donation_noop [OF g False] show ?thesis by simp
  qed
qed

text \<open>
  Whoever loads either page, the rows after the load are the rows before it with some of
  the available and expired ones flipped to expired.
\<close>

lemma donor_dashboard_rows:
  "\<exists>S. out_db (donor_dashboard today now cu db) =
     db\<lparr>food_donations :=
          map (\<lambda>r. if r \<in> S \<and> d_status r = D_available \<and> d_expiry_date r < today
                    then r\<lparr>d_status := D_expired, d_updated_at := now\<rparr> else r) (food_donations db)\<rparr>"
proof (cases "\<exists>u. cu = Some u \<and> is_donor u")
  case True
  then obtain u where u: "cu = Some u" "is_donor u" by blast
  show ?thesis
    unfolding u(1) donor_dashboard_out [OF u(2)]
    by (rule exI [of _ "{r. d_donor_id r = u_id u}"]) simp
next
  case False
  then have "out_db (donor_dashboard today now cu db) = db"
    by (cases cu) (simp_all add: donor_dashboard_def login_required_def donor_required_def)
  then show ?thesis by (intro exI [of _ "{}"]) simp
qed

lemma donor_view_donation_rows:
  assumes pk: "distinct (map d_id (food_donations db))"
  shows "\<exists>S. out_db (donor_view_donation today now cu j db) =
     db\<lparr>food_donations :=
          map (\<lambda>r. if r \<in> S \<and> d_status r = D_available \<and> d_expiry_date r < today
                    then r\<lparr>d_status := D_expired, d_updated_at := now\<rparr> else r) (food_donations db)\<rparr>"
proof (cases "\<exists>u d. cu = Some u \<and> is_donor u \<and> get_own_donation db j (u_id u) = Some d")
  case True
  then obtain u d where u: "cu = Some u" "is_donor u" "get_own_donation db j (u_id u) = Some d"
    by blast
  from u(3) have d: "d \<in> set (food_donations db)" "d_id d = j \<and> d_donor_id d = u_id u"
    unfolding get_own_donation_def by (auto dest: find_Some_set find_Some_P)
  from donor_view_donation_out [OF u(2) pk d(1), of today now] d(2)
  show ?thesis unfolding u(1) by (intro exI [of _ "{d}"]) simp
next
  case False
  then have "out_db (donor_view_donation today now cu j db) = db"
    by (cases cu)
       (auto simp: donor_view_donation_def login_required_def donor_required_def split: option.splits)
  then show ?thesis by (intro exI [of _ "{}"]) simp
qed

lemma get_donation_map:
  assumes "distinct (map d_id (food_donations db))" "r \<in> set (food_donations db)"
    and "\<And>x. d_id (f x) = d_id x"
  shows "get_donation (db\<lparr>food_donations := map f (food_donations db)\<rparr>) (d_id r) = Some (f r)"
proof -
  have ids: "map d_id (map f (food_donations db)) = map d_id (food_donations db)"
    using assms(3) by simp
  have "get_donation (db\<lparr>food_donations := map f (food_donations db)\<rparr>) (d_id (f r)) = Some (f r)"
  proof (rule get_donation_distinct)
    show "distinct (map d_id (food_donations (db\<lparr>food_donations := map f (food_donations db)\<rparr>)))"
      using assms(1) ids by (simp del: map_map)
    show "f r \<in> set (food_donations (db\<lparr>food_donations := map f (food_donations db)\<rparr>))"
      using assms(2) by simp
  qed
  then show ?thesis using assms(3) by simp
qed

lemma donor_view_donation_after_map:
  assumes pk: "distinct (map d_id (food_donations db))" and row: "d \<in> set (food_donations db)"
    and own: "d_donor_id d = u_id u"
    and f: "\<And>x. d_id (f x) = d_id x" "\<And>x. d_donor_id (f x) = d_donor_id x"
    and settled: "\<not> (d_status (f d) = D_available \<and> d_expiry_date (f d) < today)"
  shows "out_db (donor_view_donation today now (Some u) (d_id d) (db\<lparr>food_donations := map f (food_donations db)\<rparr>))
           = db\<lparr>food_donations := map f (food_donations db)\<rparr>"
proof -
  let ?db = "db\<lparr>food_donations := map f (food_donations db)\<rparr>"
  have ids: "map d_id (map f (food_donations db)) = map d_id (food_donations db)"
    using f(1) by simp
  have pk': "distinct (map d_id (food_donations ?db))"
    using pk ids by (simp del: map_map)
  have row': "f d \<in> set (food_donations ?db)" using row by simp
  from get_own_donation_distinct [OF pk' row', of "u_id u"] f own
  have "get_own_donation ?db (d_id d) (u_id u) = Some (f d)" by simp
  then show ?thesis using settled by (rule donor_view_donation_noop)
qed

text \<open>
  Claim C3. Let \<open>d\<close> be a donation row of donor \<open>u\<close>, in a table whose primary key is
  unique. (1) If \<open>d\<close> is available and its expiry date is before today, then after a
  load of the dashboard of \<open>u\<close>, and after a load of the detail view of \<open>d\<close>, the
  committed row is \<open>d\<close> with status expired (and \<^verbatim>\<open>updated_at\<close> stamped). (2) A
  second load changes nothing further: the dashboard and the detail view leave the
  database after a dashboard load as it is, the detail view leaves the database after a
  detail view as it is, and the dashboard leaves the row of \<open>d\<close> after a detail view
  as it is. (3) A row whose status is not available, or whose expiry date is today or
  later, is the same row after any load of either page by any visitor.
\<close>

theorem lazy_expiry_spec:
  assumes donor: "is_donor u" and pk: "distinct (map d_id (food_donations db))"
    and row: "d \<in> set (food_donations db)" and own: "d_donor_id d = u_id u"
  shows "(d_status d = D_available \<and> d_expiry_date d < today \<longrightarrow>
            get_donation (out_db (donor_dashboard today now (Some u) db)) (d_id d)
              = Some (d\<lparr>d_status := D_expired, d_updated_at := now\<rparr>)
          \<and> get_donation (out_db (donor_view_donation today now (Some u) (d_id d) db)) (d_id d)
              = Some (d\<lparr>d_status := D_expired, d_updated_at := now\<rparr>))
       \<and> (out_db (donor_dashboard today now' (Some u) (out_db (donor_dashboard today now (Some u) db)))
            = out_db (donor_dashboard today now (Some u) db)
          \<and> out_db (donor_view_donation today now' (Some u) (d_id d) (out_db (donor_dashboard today now (Some u) db)))
            = out_db (donor_dashboard today now (Some u) db)
          \<and> out_db (donor_view_donation today now' (Some u) (d_id d)
                      (out_db (donor_view_donation today now (Some u) (d_id d) db)))
            = out_db (donor_view_donation today now (Some u) (d_id d) db)
          \<and> get_donation (out_db (donor_dashboard today now' (Some u)
                                    (out_db (donor_view_donation today now (Some u) (d_id d) db)))) (d_id d)
            = get_donation (out_db (donor_view_donation today now (Some u) (d_id d) db)) (d_id d))
       \<and> (\<forall>r \<in> set (food_donations db). \<forall>cu j.
            d_status r \<noteq> D_available \<or> today \<le> d_expiry_date r \<longrightarrow>
              get_donation (out_db (donor_dashboard today now cu db)) (d_id r) = Some r
            \<and> get_donation (out_db (donor_view_donation today now cu j db)) (d_id r) = Some r)"
proof -
  let ?E = "\<lambda>t r. if d_donor_id r = u_id u \<and> d_status r = D_available \<and> d_expiry_date r < today
                  then r\<lparr>d_status := D_expired, d_updated_at := t\<rparr> else r"
  let ?V = "\<lambda>t r. if r = d \<and> d_status r = D_available \<and> d_expiry_date r < today
                  then r\<lparr>d_status := D_expired, d_updated_at := t\<rparr> else r"
  let ?rows = "food_donations db"
  note dash = donor_dashboard_out [OF donor]
  note view = donor_view_donation_out [OF donor pk row own]
  have p1: "d_status d = D_available \<and> d_expiry_date d < today \<Longrightarrow>
      get_donation (out_db (donor_dashboard today now (Some u) db)) (d_id d)
        = Some (d\<lparr>d_status := D_expired, d_updated_at := now\<rparr>)"
    unfolding dash using get_donation_map [OF pk row, of "?E now"] own by simp
  have p2: "d_status d = D_available \<and> d_expiry_date d < today \<Longrightarrow>
      get_donation (out_db (donor_view_donation today now (Some u) (d_id d) db)) (d_id d)
        = Some (d\<lparr>d_status := D_expired, d_updated_at := now\<rparr>)"
    unfolding view using get_donation_map [OF pk row, of "?V now"] by simp
  have i1: "out_db (donor_dashboard today now' (Some u) (out_db (donor_dashboard today now (Some u) db)))
            = out_db (donor_dashboard today now (Some u) db)"
  proof -
    have "map (?E now') (map (?E now) ?rows) = map (?E now) ?rows"
      by (simp add: comp_def) 
    then show ?thesis unfolding dash by simp
  qed
  have i2: "out_db (donor_view_donation today now' (Some u) (d_id d) (out_db (donor_dashboard today now (Some u) db)))
            = out_db (donor_dashboard today now (Some u) db)"
    unfolding dash by (rule donor_view_donation_after_map [OF pk row own]) (simp_all add: own)
  have i3: "out_db (donor_view_donation today now' (Some u) (d_id d)
                      (out_db (donor_view_donation today now (Some u) (d_id d) db)))
            = out_db (donor_view_donation today now (Some u) (d_id d) db)"
    unfolding view by (rule donor_view_donation_after_map [OF pk row own]) simp_all
  have i4: "get_donation (out_db (donor_dashboard today now' (Some u)
                                    (out_db (donor_view_donation today now (Some u) (d_id d) db)))) (d_id d)
            = get_donation (out_db (donor_view_donation today now (Some u) (d_id d) db)) (d_id d)"
  proof -
    have a: "get_donation (db\<lparr>food_donations := map (?V now) ?rows\<rparr>) (d_id d) = Some (?V now d)"
      by (rule get_donation_map [OF pk row]) simp
    have b: "get_donation (db\<lparr>food_donations := map (\<lambda>r. ?E now' (?V now r)) ?rows\<rparr>) (d_id d)
               = Some (?E now' (?V now d))"
      by (rule get_donation_map [OF pk row]) simp
    have c: "?E now' (?V now d) = ?V now d" using own by simp
    show ?thesis unfolding view dash using a b c by (simp add: comp_def)
  qed
  have p3: "get_donation (out_db (donor_dashboard today now cu db)) (d_id r) = Some r
            \<and> get_donation (out_db (donor_view_donation today now cu j db)) (d_id r) = Some r"
    if r: "r \<in> set (food_donations db)" and nc: "d_status r \<noteq> D_available \<or> today \<le> d_expiry_date r"
    for r cu j
  proof -
    obtain S where S: "out_db (donor_dashboard today now cu db) =
       db\<lparr>food_donations := map (\<lambda>r. if r \<in> S \<and> d_status r = D_available \<and> d_expiry_date r < today
                    then r\<lparr>d_status := D_expired, d_updated_at := now\<rparr> else r) ?rows\<rparr>"
      using donor_dashboard_rows by blast
    obtain T where T: "out_db (donor_view_donation today now cu j db) =
       db\<lparr>food_donations := map (\<lambda>r. if r \<in> T \<and> d_status r = D_available \<and> d_expiry_date r < today
                    then r\<lparr>d_status := D_expired, d_updated_at := now\<rparr> else r) ?rows\<rparr>"
      using donor_view_donation_rows [OF pk] by blast
    have "get_donation (out_db (donor_dashboard today now cu db)) (d_id r) = Some r"
      unfolding S using get_donation_map [OF pk r, of "\<lambda>r. if r \<in> S \<and> d_status r = D_available \<and> d_expiry_date r < today
                    then r\<lparr>d_status := D_expired, d_updated_at := now\<rparr> else r"] nc by auto
    moreover have "get_donation (out_db (donor_view_donation today now cu j db)) (d_id r) = Some r"
      unfolding T using get_donation_map [OF pk r, of "\<lambda>r. if r \<in> T \<and> d_status r = D_available \<and> d_expiry_date r < today
                    then r\<lparr>d_status := D_expired, d_updated_at := now\<rparr> else r"] nc by auto
    ultimately show ?thesis by simp
  qed
  show ?thesis using p1 p2 i1 i2 i3 i4 p3 by blast
qed

theorem lazy_expiry_spec_witness:
  "is_donor donor_user \<and> distinct (map d_id (food_donations db_listed))
   \<and> bread \<in> set (food_donations db_listed) \<and> d_donor_id bread = u_id donor_user
   \<and> d_status bread = D_available \<and> d_expiry_date bread < 110
   \<and> get_donation (out_db (donor_dashboard 110 50 (Some donor_user) db_listed)) (d_id bread)
       = Some (bread\<lparr>d_status := D_expired, d_updated_at := 50\<rparr>)
   \<and> get_donation (out_db (donor_view_donation 110 50 (Some donor_user) (d_id bread) db_listed)) (d_id bread)
       = Some (bread\<lparr>d_status := D_expired, d_updated_at := 50\<rparr>)
   \<and> out_db (donor_dashboard 110 60 (Some donor_user) (out_db (donor_dashboard 110 50 (Some donor_user) db_listed)))
       = out_db (donor_dashboard 110 50 (Some donor_user) db_listed)
   \<and> milk \<in> set (food_donations db_listed) \<and> 110 \<le> d_expiry_date milk
   \<and> get_donation (out_db (donor_dashboard 110 50 (Some donor_user) db_listed)) (d_id milk) = Some milk"
proof -
  have h1: "is_donor donor_user" by (simp add: is_donor_def donor_user_def)
  have h2: "distinct (map d_id (food_donations db_listed))"
    by (simp add: db_listed_def db_empty_def bread_def milk_def)
  have h3: "bread \<in> set (food_donations db_listed)" by (simp add: db_listed_def db_empty_def)
  have h4: "d_donor_id bread = u_id donor_user" by (simp add: bread_def donor_user_def)
  have h5: "d_status bread = D_available \<and> d_expiry_date bread < 110" by (simp add: bread_def)
  have h6: "milk \<in> set (food_donations db_listed)" by (simp add: db_listed_def db_empty_def)
  have h7: "110 \<le> d_expiry_date milk" by (simp add: milk_def)
  note t = lazy_expiry_spec [OF h1 h2 h3 h4, of 110 50 60]
  from t h5 have a: "get_donation (out_db (donor_dashboard 110 50 (Some donor_user) db_listed)) (d_id bread)
       = Some (bread\<lparr>d_status := D_expired, d_updated_at := 50\<rparr>)
     \<and> get_donation (out_db (donor_view_donation 110 50 (Some donor_user) (d_id bread) db_listed)) (d_id bread)
       = Some (bread\<lparr>d_status := D_expired, d_updated_at := 50\<rparr>)" by blast
  from t have b: "out_db (donor_dashboard 110 60 (Some donor_user) (out_db (donor_dashboard 110 50 (Some donor_user) db_listed)))
       = out_db (donor_dashboard 110 50 (Some donor_user) db_listed)" by blast
  from t h6 h7 have c: "get_donation (out_db (donor_dashboard 110 50 (Some donor_user) db_listed)) (d_id milk) = Some milk"
    by blast
  from h1 h2 h3 h4 h5 h6 h7 a b c show ?thesis by blast
qed

subsection \<open>What an operation does to the keys\<close>

lemma map_d_id_write_donation [simp]:
  "map d_id (write_donation now obj rows) = map d_id rows"
  by (induction rows) (simp_all add: write_donation_def flush_donation_def)

lemma map_c_id_write_claim [simp]:
  "map c_id (write_claim obj rows) = map c_id rows"
  by (induction rows) (simp_all add: write_claim_def)

lemma map_c_donation_id_write_claim:
  assumes "distinct (map c_id rows)" "claim \<in> set rows" "c_id obj = c_id claim"
    "c_donation_id obj = c_donation_id claim"
  shows "map c_donation_id (write_claim obj rows) = map c_donation_id rows"
  unfolding write_claim_def map_map
proof (rule map_cong [OF refl])
  fix r assume "r \<in> set rows"
  with assms(1,2) have "c_id r = c_id claim \<longleftrightarrow> r = claim"
    by (auto simp: distinct_map dest: inj_onD)
  with assms(3,4) show "(c_donation_id \<circ> (\<lambda>r. if c_id r = c_id obj then obj else r)) r = c_donation_id r"
    by auto
qed

lemma same_ids_refl [simp]: "same_ids db db"
  by (simp add: same_ids_def)

lemma same_ids_commit_session:
  assumes "distinct (map c_id (claims db))" "claim \<in> set (claims db)" "c_id c' = c_id claim"
    "c_donation_id c' = c_donation_id claim"
  shows "same_ids db (commit_session now (c', dopt) db)"
  using map_c_donation_id_write_claim [OF assms]
  by (cases dopt) (simp_all add: same_ids_def commit_session_def)

lemma own_claim_set: "get_own_claim db i n = Some claim \<Longrightarrow> claim \<in> set (claims db)"
  unfolding get_own_claim_def by (rule find_Some_set)

lemma Claim_cancel_claim_ids:
  "c_id (fst (Claim_cancel_claim r (c, d))) = c_id c"
  "c_donation_id (fst (Claim_cancel_claim r (c, d))) = c_donation_id c"
  by (simp_all add: Claim_cancel_claim_def Let_def split: option.splits)

lemma mark_as_completed_ids:
  "c_id (fst (mark_as_completed now (c, d))) = c_id c"
  "c_donation_id (fst (mark_as_completed now (c, d))) = c_donation_id c"
  by (simp_all add: mark_as_completed_def)

lemma commit_session_fst_snd: "commit_session now s db = commit_session now (fst s, snd s) db"
  by simp

lemma update_claim_out:
  assumes "is_ngo u" "get_own_claim db i (u_id u) = Some claim"
    "claim_status_of (uf_status form) = Some st" "validate_UpdateClaimForm form"
  shows "out_db (update_claim now (Some u) i (POST form) db) =
     commit_session now
       (if st = C_completed \<and> c_status claim \<noteq> C_completed
        then mark_as_completed now
               (claim\<lparr>c_status := st,
                       c_notes := (if uf_notes form \<noteq> [] then Some (strip (uf_notes form)) else c_notes claim)\<rparr>,
                donation_of db claim)
        else if st = C_cancelled
        then Claim_cancel_claim (Some (uf_notes form))
               (claim\<lparr>c_status := st,
                       c_notes := (if uf_notes form \<noteq> [] then Some (strip (uf_notes form)) else c_notes claim)\<rparr>,
                donation_of db claim)
        else (claim\<lparr>c_status := st,
                     c_notes := (if uf_notes form \<noteq> [] then Some (strip (uf_notes form)) else c_notes claim)\<rparr>,
              None)) db"
  using assms by (simp add: update_claim_def login_required_def ngo_required_def Let_def)

lemma update_claim_unchanged:
  assumes "\<not> (\<exists>u claim form st. cu = Some u \<and> is_ngo u \<and> get_own_claim db i (u_id u) = Some claim
          \<and> req = POST form \<and> claim_status_of (uf_status form) = Some st \<and> validate_UpdateClaimForm form)"
  shows "out_db (update_claim now cu i req db) = db"
  using assms
  by (auto simp: update_claim_def login_required_def ngo_required_def
      split: option.splits request.splits)

lemma update_claim_ids:
  assumes "distinct (map c_id (claims db))"
  shows "same_ids db (out_db (update_claim now cu i req db))"
proof (cases "\<exists>u claim form st. cu = Some u \<and> is_ngo u \<and> get_own_claim db i (u_id u) = Some claim
          \<and> req = POST form \<and> claim_status_of (uf_status form) = Some st \<and> validate_UpdateClaimForm form")
  case True
  then obtain u claim form st where h: "cu = Some u" "is_ngo u" "get_own_claim db i (u_id u) = Some claim"
    "req = POST form" "claim_status_of (uf_status form) = Some st" "validate_UpdateClaimForm form"
    by blast
  define s where "s = (if st = C_completed \<and> c_status claim \<noteq> C_completed
        then mark_as_completed now
               (claim\<lparr>c_status := st,
                       c_notes := (if uf_notes form \<noteq> [] then Some (strip (uf_notes form)) else c_notes claim)\<rparr>,
                donation_of db claim)
        else if st = C_cancelled
        then Claim_cancel_claim (Some (uf_notes form))
               (claim\<lparr>c_status := st,
                       c_notes := (if uf_notes form \<noteq> [] then Some (strip (uf_notes form)) else c_notes claim)\<rparr>,
                donation_of db claim)
        else (claim\<lparr>c_status := st,
                     c_notes := (if uf_notes form \<noteq> [] then Some (strip (uf_notes form)) else c_notes claim)\<rparr>,
              None))"
  have out: "out_db (update_claim now cu i req db) = commit_session now (fst s, snd s) db"
    unfolding h(1,4) update_claim_out [OF h(2,3,5,6)] s_def by simp
  have ids: "c_id (fst s) = c_id claim" "c_donation_id (fst s) = c_donation_id claim"
    unfolding s_def by (simp_all add: Claim_cancel_claim_ids mark_as_completed_ids)
  show ?thesis unfolding out
    by (rule same_ids_commit_session [OF assms own_claim_set [OF h(3)] ids])
next
  case False
  then show ?thesis by (simp add: update_claim_unchanged)
qed

lemma cancel_claim_ids:
  assumes "distinct (map c_id (claims db))"
  shows "same_ids db (out_db (cancel_claim now cu i reason db))"
proof (cases "\<exists>u claim. cu = Some u \<and> is_ngo u \<and> get_own_claim db i (u_id u) = Some claim
          \<and> can_be_cancelled claim")
  case True
  then obtain u claim where h: "cu = Some u" "is_ngo u" "get_own_claim db i (u_id u) = Some claim"
    "can_be_cancelled claim" by blast
  define s where "s = Claim_cancel_claim (Some (case reason of None \<Rightarrow> ''Cancelled by NGO'' | Some x \<Rightarrow> x))
                  (claim, donation_of db claim)"
  have out: "out_db (cancel_claim now cu i reason db) = commit_session now (fst s, snd s) db"
    unfolding h(1) cancel_claim_out [OF h(2,3,4)] s_def by simp
  have ids: "c_id (fst s) = c_id claim" "c_donation_id (fst s) = c_donation_id claim"
    unfolding s_def by (simp_all add: Claim_cancel_claim_ids)
  show ?thesis unfolding out
    by (rule same_ids_commit_session [OF assms own_claim_set [OF h(3)] ids])
next
  case False
  then have "out_db (cancel_claim now cu i reason db) = db"
    by (auto simp: cancel_claim_def login_required_def ngo_required_def split: option.splits)
  then show ?thesis by simp
qed

lemma complete_pickup_out:
  assumes "is_ngo u" "get_own_claim db i (u_id u) = Some claim" "c_status claim \<noteq> C_completed"
  shows "out_db (complete_pickup now (Some u) i db)
           = commit_session now (mark_as_completed now (claim, donation_of db claim)) db"
  using assms
  by (simp add: complete_pickup_def login_required_def ngo_required_def Let_def split: option.splits)

lemma complete_pickup_unchanged:
  assumes "\<not> (\<exists>u claim. cu = Some u \<and> is_ngo u \<and> get_own_claim db i (u_id u) = Some claim
          \<and> c_status claim \<noteq> C_completed)"
  shows "out_db (complete_pickup now cu i db) = db"
  using assms
  by (auto simp: complete_pickup_def login_required_def ngo_required_def split: option.splits)

lemma complete_pickup_ids:
  assumes "distinct (map c_id (claims db))"
  shows "same_ids db (out_db (complete_pickup now cu i db))"
proof (cases "\<exists>u claim. cu = Some u \<and> is_ngo u \<and> get_own_claim db i (u_id u) = Some claim
          \<and> c_status claim \<noteq> C_completed")
  case True
  then obtain u claim where h: "cu = Some u" "is_ngo u" "get_own_claim db i (u_id u) = Some claim"
    "c_status claim \<noteq> C_completed" by blast
  define s where "s = mark_as_completed now (claim, donation_of db claim)"
  have out: "out_db (complete_pickup now cu i db) = commit_session now (fst s, snd s) db"
    unfolding h(1) complete_pickup_out [OF h(2,3,4)] s_def by simp
  have ids: "c_id (fst s) = c_id claim" "c_donation_id (fst s) = c_donation_id claim"
    unfolding s_def by (simp_all add: mark_as_completed_ids)
  show ?thesis unfolding out
    by (rule same_ids_commit_session [OF assms own_claim_set [OF h(3)] ids])
next
  case False
  then show ?thesis by (simp add: complete_pickup_unchanged)
qed

lemma edit_donation_ids: "same_ids db (out_db (edit_donation today now cu i req db))"
  by (cases cu; cases req)
     (simp_all add: edit_donation_def login_required_def donor_required_def same_ids_def Let_def
        split: option.splits)

lemma donor_dashboard_ids: "same_ids db (out_db (donor_dashboard today now cu db))"
proof -
  obtain S where "out_db (donor_dashboard today now cu db) =
     db\<lparr>food_donations :=
          map (\<lambda>r. if r \<in> S \<and> d_status r = D_available \<and> d_expiry_date r < today
                    then r\<lparr>d_status := D_expired, d_updated_at := now\<rparr> else r) (food_donations db)\<rparr>"
    using donor_dashboard_rows by blast
  then show ?thesis by (simp add: same_ids_def comp_def)
qed

lemma donor_view_donation_ids: "same_ids db (out_db (donor_view_donation today now cu i db))"
  by (cases cu)
     (simp_all add: donor_view_donation_def login_required_def donor_required_def same_ids_def
        split: option.splits prod.splits)

lemma claim_of_None_iff:
  "claim_of db d = None \<longleftrightarrow> d_id d \<notin> set (map c_donation_id (claims db))"
  by (auto simp: claim_of_def find_None_iff image_iff)

lemma get_donation_Some:
  "get_donation db i = Some d \<Longrightarrow> d \<in> set (food_donations db) \<and> d_id d = i"
  unfolding get_donation_def by (auto dest: find_Some_set find_Some_P)

lemma get_donation_None_iff:
  "get_donation db i = None \<longleftrightarrow> i \<notin> set (map d_id (food_donations db))"
  by (auto simp: get_donation_def find_None_iff image_iff)

lemma get_own_donation_Some:
  "get_own_donation db i n = Some d \<Longrightarrow> d \<in> set (food_donations db) \<and> d_id d = i \<and> d_donor_id d = n"
  unfolding get_own_donation_def by (auto dest: find_Some_set find_Some_P)

lemma next_rowid_fresh: "next_rowid ids \<notin> set ids"
proof
  assume "next_rowid ids \<in> set ids"
  then have "next_rowid ids \<le> Max (set ids)" by simp
  moreover from \<open>next_rowid ids \<in> set ids\<close> have "ids \<noteq> []" by auto
  ultimately show False by (simp add: next_rowid_def)
qed

lemma claim_donation_effect:
  "out_db (claim_donation today now cu i req db) = db
   \<or> (\<exists>u d c. cu = Some u \<and> is_ngo u \<and> get_donation db i = Some d \<and> can_be_claimed today d
        \<and> claim_of db d = None
        \<and> c_id c = next_rowid (map c_id (claims db)) \<and> c_donation_id c = d_id d \<and> c_status c = C_claimed
        \<and> out_db (claim_donation today now cu i req db)
            = db\<lparr>claims := claims db @ [c],
                 food_donations := write_donation now (d\<lparr>d_status := D_claimed\<rparr>) (food_donations db)\<rparr>)"
proof (cases "\<exists>u d form. cu = Some u \<and> is_ngo u \<and> get_donation db i = Some d \<and> can_be_claimed today d
        \<and> claim_of db d = None \<and> req = POST form \<and> validate_ClaimForm form")
  case True
  then obtain u d form where h: "cu = Some u" "is_ngo u" "get_donation db i = Some d"
    "can_be_claimed today d" "claim_of db d = None" "req = POST form" "validate_ClaimForm form"
    by blast
  from h(5) have free: "\<not> (\<exists>r \<in> set (claims db). c_donation_id r = d_id d)"
    by (simp add: claim_of_def find_None_iff)
  define c where "c = \<lparr>c_id = next_rowid (map c_id (claims db)), c_donation_id = d_id d, c_ngo_id = u_id u,
       c_status = C_claimed, c_claimed_at = now, c_pickup_scheduled_at = None, c_completed_at = None,
       c_notes = (if cf_notes form \<noteq> [] then Some (strip (cf_notes form)) else None)\<rparr>"
  have "out_db (claim_donation today now cu i req db)
            = db\<lparr>claims := claims db @ [c],
                 food_donations := write_donation now (d\<lparr>d_status := D_claimed\<rparr>) (food_donations db)\<rparr>"
    using h free unfolding c_def
    by (simp add: claim_donation_def login_required_def ngo_required_def insert_claim_def Let_def)
  moreover have "c_id c = next_rowid (map c_id (claims db)) \<and> c_donation_id c = d_id d \<and> c_status c = C_claimed"
    by (simp add: c_def)
  ultimately show ?thesis using h by blast
next
  case False
  then have "out_db (claim_donation today now cu i req db) = db"
    by (auto simp: claim_donation_def login_required_def ngo_required_def
        split: option.splits request.splits)
  then show ?thesis by simp
qed

lemma add_donation_effect:
  "out_db (add_donation today now cu req db) = db
   \<or> (\<exists>d. d_id d = next_rowid (map d_id (food_donations db)) \<and> d_status d = D_available
        \<and> out_db (add_donation today now cu req db)
            = db\<lparr>food_donations := food_donations db @ [d]\<rparr>)"
proof (cases "\<exists>u form. cu = Some u \<and> is_donor u \<and> req = POST form \<and> validate_FoodDonationForm today db form")
  case True
  then obtain u form where h: "cu = Some u" "is_donor u" "req = POST form"
    "validate_FoodDonationForm today db form" by blast
  define d where "d = \<lparr>d_id = next_rowid (map d_id (food_donations db)),
                              d_donor_id = u_id u,
                              d_category_id = the (f_category_id form),
                              d_title = strip (f_title form),
                              d_description = strip_or_None (f_description form),
                              d_quantity = the (f_quantity form),
                              d_unit = f_unit form,
                              d_expiry_date = the (f_expiry_date form),
                              d_pickup_address = strip (f_pickup_address form),
                              d_pickup_city = strip (f_pickup_city form),
                              d_pickup_instructions = strip_or_None (f_pickup_instructions form),
                              d_status = D_available,
                              d_is_perishable = f_is_perishable form,
                              d_dietary_info = (if f_dietary_info form \<noteq> [] then Some (f_dietary_info form) else None),
                              d_created_at = now,
                              d_updated_at = now\<rparr>"
  have "out_db (add_donation today now cu req db)
            = db\<lparr>food_donations := food_donations db @ [d]\<rparr>"
    using h unfolding d_def
    by (simp add: add_donation_def login_required_def donor_required_def Let_def)
  moreover have "d_id d = next_rowid (map d_id (food_donations db)) \<and> d_status d = D_available" by (simp add: d_def)
  ultimately show ?thesis by blast
next
  case False
  then have "out_db (add_donation today now cu req db) = db"
    by (auto simp: add_donation_def login_required_def donor_required_def
        split: option.splits request.splits)
  then show ?thesis by simp
qed

lemma delete_donation_effect:
  "out_db (delete_donation cu i db) = db
   \<or> ((\<exists>d \<in> set (food_donations db). d_id d = i \<and> d_status d = D_available)
        \<and> out_db (delete_donation cu i db)
            = db\<lparr>food_donations := filter (\<lambda>r. d_id r \<noteq> i) (food_donations db),
                 claims := filter (\<lambda>c. c_donation_id c \<noteq> i) (claims db)\<rparr>)"
proof (cases "\<exists>u d. cu = Some u \<and> is_donor u \<and> get_own_donation db i (u_id u) = Some d \<and> can_be_edited d")
  case True
  then obtain u d where h: "cu = Some u" "is_donor u" "get_own_donation db i (u_id u) = Some d"
    "can_be_edited d" by blast
  from get_own_donation_Some [OF h(3)] have "d_id d = i" by simp
  then have "out_db (delete_donation cu i db)
            = db\<lparr>food_donations := filter (\<lambda>r. d_id r \<noteq> i) (food_donations db),
                 claims := filter (\<lambda>c. c_donation_id c \<noteq> i) (claims db)\<rparr>"
    using h by (simp add: delete_donation_def login_required_def donor_required_def)
  moreover from get_own_donation_Some [OF h(3)] h(4)
  have "\<exists>d \<in> set (food_donations db). d_id d = i \<and> d_status d = D_available"
    unfolding can_be_edited_def by blast
  ultimately show ?thesis by simp
next
  case False
  then have "out_db (delete_donation cu i db) = db"
    by (auto simp: delete_donation_def login_required_def donor_required_def split: option.splits)
  then show ?thesis by simp
qed

text \<open>Every operation is of one of four kinds, as far as keys are concerned.\<close>

lemma perform_keys:
  assumes "distinct (map c_id (claims db))"
  shows "same_ids db (perform op db)
   \<or> (\<exists>d. d_id d = next_rowid (map d_id (food_donations db))
        \<and> perform op db = db\<lparr>food_donations := food_donations db @ [d]\<rparr>)
   \<or> (\<exists>c rows. c_id c = next_rowid (map c_id (claims db)) \<and> c_donation_id c \<in> set (map d_id (food_donations db))
        \<and> c_donation_id c \<notin> set (map c_donation_id (claims db))
        \<and> map d_id rows = map d_id (food_donations db)
        \<and> perform op db = db\<lparr>claims := claims db @ [c],
                              food_donations := rows\<rparr>)
   \<or> (\<exists>i. perform op db = db\<lparr>food_donations := filter (\<lambda>r. d_id r \<noteq> i) (food_donations db),
                                 claims := filter (\<lambda>c. c_donation_id c \<noteq> i) (claims db)\<rparr>)"
proof (cases op)
  case (Op_claim_donation today now cu i req)
  from claim_donation_effect [of today now cu i req db]
  show ?thesis
  proof
    assume "out_db (claim_donation today now cu i req db) = db"
    then show ?thesis using Op_claim_donation by simp
  next
    assume "\<exists>u d c. cu = Some u \<and> is_ngo u \<and> get_donation db i = Some d \<and> can_be_claimed today d
        \<and> claim_of db d = None
        \<and> c_id c = next_rowid (map c_id (claims db)) \<and> c_donation_id c = d_id d \<and> c_status c = C_claimed
        \<and> out_db (claim_donation today now cu i req db)
            = db\<lparr>claims := claims db @ [c],
                 food_donations := write_donation now (d\<lparr>d_status := D_claimed\<rparr>) (food_donations db)\<rparr>"
    then obtain d c where h: "get_donation db i = Some d" "claim_of db d = None"
      "c_id c = next_rowid (map c_id (claims db))" "c_donation_id c = d_id d"
      "out_db (claim_donation today now cu i req db)
            = db\<lparr>claims := claims db @ [c],
                 food_donations := write_donation now (d\<lparr>d_status := D_claimed\<rparr>) (food_donations db)\<rparr>"
      by blast
    from get_donation_Some [OF h(1)] have "d_id d \<in> set (map d_id (food_donations db))" by auto
    moreover from h(2) have "d_id d \<notin> set (map c_donation_id (claims db))"
      by (simp add: claim_of_None_iff)
    ultimately have "\<exists>c rows. c_id c = next_rowid (map c_id (claims db)) \<and> c_donation_id c \<in> set (map d_id (food_donations db))
        \<and> c_donation_id c \<notin> set (map c_donation_id (claims db))
        \<and> map d_id rows = map d_id (food_donations db)
        \<and> perform op db = db\<lparr>claims := claims db @ [c],
                              food_donations := rows\<rparr>"
      using h(3,4,5) Op_claim_donation
      by (intro exI [of _ c] exI [of _ "write_donation now (d\<lparr>d_status := D_claimed\<rparr>) (food_donations db)"])
         simp
    then show ?thesis by blast
  qed
next
  case (Op_update_claim now cu i req)
  then show ?thesis using update_claim_ids [OF assms] by simp
next
  case (Op_cancel_claim now cu i reason)
  then show ?thesis using cancel_claim_ids [OF assms] by simp
next
  case (Op_complete_pickup now cu i)
  then show ?thesis using complete_pickup_ids [OF assms] by simp
next
  case (Op_add_donation today now cu req)
  from add_donation_effect [of today now cu req db] show ?thesis
    using Op_add_donation by auto
next
  case (Op_edit_donation today now cu i req)
  then show ?thesis using edit_donation_ids by simp
next
  case (Op_delete_donation cu i)
  from delete_donation_effect [of cu i db] show ?thesis
    using Op_delete_donation by auto
next
  case (Op_donor_dashboard today now cu)
  then show ?thesis using donor_dashboard_ids by simp
next
  case (Op_donor_view_donation today now cu i)
  then show ?thesis using donor_view_donation_ids by simp
qed

subsection \<open>Invariants of every run\<close>

lemma pk_invariant_maps:
  "pk_invariant db \<longleftrightarrow>
     distinct (map d_id (food_donations db))
     \<and> distinct (map c_id (claims db))
     \<and> set (map c_donation_id (claims db)) \<subseteq> set (map d_id (food_donations db))"
  by (auto simp: pk_invariant_def)

lemma pk_invariant_same_ids: "same_ids db db' \<Longrightarrow> pk_invariant db \<Longrightarrow> pk_invariant db'"
  unfolding pk_invariant_maps same_ids_def by simp

lemma pk_invariant_initial: "initial db \<Longrightarrow> pk_invariant db"
  by (simp add: initial_def pk_invariant_def)

lemma perform_pk_invariant:
  assumes "pk_invariant db"
  shows "pk_invariant (perform op db)"
proof -
  from assms have dc: "distinct (map c_id (claims db))" by (simp add: pk_invariant_def)
  from perform_keys [OF dc, of op] consider
    (same) "same_ids db (perform op db)"
  | (add) d where "d_id d = next_rowid (map d_id (food_donations db))"
      "perform op db = db\<lparr>food_donations := food_donations db @ [d]\<rparr>"
  | (claim) c rows where "c_id c = next_rowid (map c_id (claims db))"
      "c_donation_id c \<in> set (map d_id (food_donations db))"
      "c_donation_id c \<notin> set (map c_donation_id (claims db))"
      "map d_id rows = map d_id (food_donations db)"
      "perform op db = db\<lparr>claims := claims db @ [c],
                              food_donations := rows\<rparr>"
  | (delete) i where
      "perform op db = db\<lparr>food_donations := filter (\<lambda>r. d_id r \<noteq> i) (food_donations db),
                                 claims := filter (\<lambda>c. c_donation_id c \<noteq> i) (claims db)\<rparr>"
    by blast
  then show ?thesis
  proof cases
    case same
    then show ?thesis using assms by (rule pk_invariant_same_ids)
  next
    case add
    show ?thesis unfolding add(2) pk_invariant_maps
      using assms add(1) next_rowid_fresh [of "map d_id (food_donations db)"]
      unfolding pk_invariant_maps by auto
  next
    case claim
    show ?thesis unfolding claim(5) pk_invariant_maps
      using assms claim(1-4) next_rowid_fresh [of "map c_id (claims db)"]
      unfolding pk_invariant_maps by auto
  next
    case delete
    show ?thesis unfolding delete using assms
      by (auto simp: pk_invariant_def distinct_map_filter)
  qed
qed

lemma run_pk_invariant: "pk_invariant db \<Longrightarrow> pk_invariant (run db ops)"
  by (induction ops arbitrary: db) (simp_all add: perform_pk_invariant)

lemma run_append: "run db (ops @ ops') = run (run db ops) ops'"
  by (induction ops arbitrary: db) simp_all

lemma perform_one_claim:
  assumes "pk_invariant db" "distinct (map c_donation_id (claims db))"
  shows "distinct (map c_donation_id (claims (perform op db)))"
proof -
  from assms have dc: "distinct (map c_id (claims db))" by (simp add: pk_invariant_def)
  from perform_keys [OF dc, of op] consider
    (same) "same_ids db (perform op db)"
  | (add) d where
      "perform op db = db\<lparr>food_donations := food_donations db @ [d]\<rparr>"
  | (claim) c rows where
      "c_donation_id c \<notin> set (map c_donation_id (claims db))"
      "perform op db = db\<lparr>claims := claims db @ [c],
                              food_donations := rows\<rparr>"
  | (delete) i where
      "perform op db = db\<lparr>food_donations := filter (\<lambda>r. d_id r \<noteq> i) (food_donations db),
                                 claims := filter (\<lambda>c. c_donation_id c \<noteq> i) (claims db)\<rparr>"
    by blast
  then show ?thesis
  proof cases
    case same
    then show ?thesis using assms(2) by (simp add: same_ids_def)
  next
    case add
    show ?thesis unfolding add using assms(2) by simp
  next
    case claim
    show ?thesis unfolding claim(2) using assms(2) claim(1) by simp
  next
    case delete
    show ?thesis unfolding delete using assms(2) by (simp add: distinct_map_filter)
  qed
qed

lemma run_one_claim:
  "pk_invariant db \<Longrightarrow> distinct (map c_donation_id (claims db))
     \<Longrightarrow> distinct (map c_donation_id (claims (run db ops)))"
  by (induction ops arbitrary: db) (simp_all add: perform_pk_invariant perform_one_claim)

text \<open>
  A claim row is removed only by the cascade of deleting its donation. So a donation
  that has a claim has one in every later state, for as long as the donation is kept.
\<close>

lemma perform_keeps_claim:
  assumes "pk_invariant db"
    and "i \<in> set (map c_donation_id (claims db))"
    and "i \<in> set (map d_id (food_donations (perform op db)))"
  shows "i \<in> set (map c_donation_id (claims (perform op db)))"
proof -
  from assms have dc: "distinct (map c_id (claims db))" by (simp add: pk_invariant_def)
  from perform_keys [OF dc, of op] consider
    (same) "same_ids db (perform op db)"
  | (add) d where
      "perform op db = db\<lparr>food_donations := food_donations db @ [d]\<rparr>"
  | (claim) c rows where
      "perform op db = db\<lparr>claims := claims db @ [c],
                              food_donations := rows\<rparr>"
  | (delete) j where
      "perform op db = db\<lparr>food_donations := filter (\<lambda>r. d_id r \<noteq> j) (food_donations db),
                                 claims := filter (\<lambda>c. c_donation_id c \<noteq> j) (claims db)\<rparr>"
    by blast
  then show ?thesis
  proof cases
    case same
    then show ?thesis using assms(2) by (simp add: same_ids_def)
  next
    case add
    show ?thesis unfolding add using assms(2) by simp
  next
    case claim
    show ?thesis unfolding claim using assms(2) by simp
  next
    case delete
    from assms(3) have "j \<noteq> i" unfolding delete by auto
    then show ?thesis unfolding delete using assms(2) by auto
  qed
qed

lemma donation_kept_now: "donation_kept i db ops \<Longrightarrow> get_donation db i \<noteq> None"
  by (cases ops) simp_all

lemma run_keeps_claim:
  assumes "pk_invariant db" and "donation_kept i db ops"
    and "i \<in> set (map c_donation_id (claims db))"
  shows "get_donation (run db ops) i \<noteq> None
         \<and> i \<in> set (map c_donation_id (claims (run db ops)))"
  using assms
proof (induction ops arbitrary: db)
  case Nil
  then show ?case by simp
next
  case (Cons op ops)
  from Cons.prems(2) have kept: "donation_kept i (perform op db) ops" by simp
  from donation_kept_now [OF kept]
  have row: "i \<in> set (map d_id (food_donations (perform op db)))"
    by (simp add: get_donation_None_iff)
  from Cons.prems(1) have "pk_invariant (perform op db)" by (rule perform_pk_invariant)
  moreover from perform_keeps_claim [OF Cons.prems(1,3) row]
  have "i \<in> set (map c_donation_id (claims (perform op db)))" .
  ultimately show ?case using Cons.IH [of "perform op db"] kept by simp
qed

subsection \<open>The example run\<close>

lemma strip_examples:
  "strip ''Surplus Bread'' = ''Surplus Bread''"
  "strip ''123 Long Enough Address'' = ''123 Long Enough Address''"
  "strip ''Springfield'' = ''Springfield''"
  "strip ''Please call ahead'' = ''Please call ahead''"
  by (simp_all add: strip_def lstrip_def rstrip_def isspace_def)

lemma validate_bread_form: "validate_FoodDonationForm 100 db_empty bread_form"
  by (simp add: validate_FoodDonationForm_def bread_form_def DataRequired_def strip_examples
      Length_between_def Length_max_def category_choices_def db_empty_def unit_choices_def
      validate_expiry_date_def dietary_choices_def)

lemma add_bread:
  "out_db (add_donation 100 20 (Some donor_user) (POST bread_form) db_empty)
     = db_empty\<lparr>food_donations := [bread]\<rparr>"
  using validate_bread_form
  by (simp add: add_donation_def login_required_def donor_required_def is_donor_def Let_def)
     (simp add: donor_user_def bread_form_def bread_def db_empty_def strip_examples strip_or_None_def
        next_rowid_def)

lemma run_listing_and_claim: "run db_empty listing_and_claim = db_claimed"
  unfolding listing_and_claim_def
  by (simp add: add_bread claim_donation_def login_required_def ngo_required_def
         get_donation_def can_be_claimed_def is_expired_def claim_of_def validate_ClaimForm_def
         insert_claim_def Let_def write_donation_def flush_donation_def strip_examples)
     (simp add: db_claimed_def db_empty_def bread_def bread_claim_def ngo_user_def is_ngo_def
        next_rowid_def)

lemma run_cancel_scenario: "run db_empty cancel_scenario = db_cancelled"
  unfolding cancel_scenario_def run_append run_listing_and_claim
  by (simp add: cancel_claim_def login_required_def ngo_required_def get_own_claim_def
        can_be_cancelled_def Claim_cancel_claim_def donation_of_def commit_session_def
        write_claim_def write_donation_def flush_donation_def Let_def
        db_cancelled_def db_claimed_def db_empty_def bread_def bread_claim_def
        ngo_user_def is_ngo_def)

lemma initial_db_empty: "initial db_empty"
  by (simp add: initial_def db_empty_def)

subsection \<open>Claiming a donation that has a claim\<close>

lemma claim_donation_has_claim:
  assumes "is_ngo u" "get_donation db i = Some d" "claim_of db d \<noteq> None"
  shows "claim_donation today now (Some u) i req db =
           reply db [(if can_be_claimed today d
                      then ''This donation has already been claimed by another NGO.''
                      else ''This donation is no longer available for claiming.'', ''error'')]
             (Redirect (Ngo_view_donation i))"
  using assms by (simp add: claim_donation_def login_required_def ngo_required_def)

lemma claim_donation_blocked:
  assumes "i \<in> set (map c_donation_id (claims db)) \<or> i \<notin> set (map d_id (food_donations db))"
  shows "out_db (claim_donation today now cu i req db) = db
       \<and> (\<forall>k. response (claim_donation today now cu i req db) \<noteq> Redirect (Ngo_view_claim k))"
proof (cases "\<exists>u d. cu = Some u \<and> is_ngo u \<and> get_donation db i = Some d")
  case True
  then obtain u d where h: "cu = Some u" "is_ngo u" "get_donation db i = Some d" by blast
  from get_donation_Some [OF h(3)] assms have "claim_of db d \<noteq> None"
    by (auto simp: claim_of_None_iff)
  from claim_donation_has_claim [OF h(2,3) this] show ?thesis by (simp add: h(1))
next
  case False
  then show ?thesis
    by (cases cu)
       (auto simp: claim_donation_def login_required_def ngo_required_def split: option.splits)
qed

lemma distinct_map_filter_le1:
  "distinct (map f xs) \<Longrightarrow> length (filter (\<lambda>x. f x = j) xs) \<le> Suc 0"
  by (induction xs) (auto simp: filter_empty_conv image_iff)

text \<open>
  Claim C2 says that a claim-donation request on a donation that has a claim is always
  answered with the message "already been claimed by another NGO". The route first tests
  \<^verbatim>\<open>can_be_claimed\<close>: after the listing and the claim of the example, the donation is
  claimed, and the request of the second NGO gets the message "no longer available".
\<close>

theorem claim_on_claimed_donation_counterexample:
  "run db_empty listing_and_claim = db_claimed
   \<and> get_donation db_claimed 1 = Some (bread\<lparr>d_status := D_claimed, d_updated_at := 30\<rparr>)
   \<and> claim_of db_claimed (bread\<lparr>d_status := D_claimed, d_updated_at := 30\<rparr>) = Some bread_claim
   \<and> is_ngo other_ngo
   \<and> flashes (claim_donation 100 35 (Some other_ngo) 1 (POST \<lparr>cf_notes = []\<rparr>) db_claimed)
       = [(''This donation is no longer available for claiming.'', ''error'')]
   \<and> flashes (claim_donation 100 35 (Some other_ngo) 1 (POST \<lparr>cf_notes = []\<rparr>) db_claimed)
       \<noteq> [(''This donation has already been claimed by another NGO.'', ''error'')]"
  by (simp add: run_listing_and_claim)
     (simp add: claim_donation_def login_required_def ngo_required_def get_donation_def
        claim_of_def can_be_claimed_def db_claimed_def db_empty_def bread_def bread_claim_def
        other_ngo_def ngo_user_def is_ngo_def)

text \<open>
  Claim C2, amended. For a donation that has a claim (in any claim status), a
  claim-donation request by an NGO is rejected and the database stays as it is (no claim
  is created, the claim and the donation are unchanged); the message is "already been
  claimed by another NGO" when the donation can be claimed (available and not expired)
  and "no longer available for claiming" otherwise. In every state of a run from a
  database without donations and claims, at most one claim references a given donation.
\<close>

theorem claim_on_claimed_donation_rejected:
  assumes "is_ngo u" and "get_donation db i = Some d" and "claim_of db d \<noteq> None"
    and "initial db0"
  shows "claim_donation today now (Some u) i req db =
           reply db [(if can_be_claimed today d
                      then ''This donation has already been claimed by another NGO.''
                      else ''This donation is no longer available for claiming.'', ''error'')]
             (Redirect (Ngo_view_donation i))
       \<and> out_db (claim_donation today now (Some u) i req db) = db
       \<and> (\<forall>j. length (filter (\<lambda>c. c_donation_id c = j) (claims (run db0 ops))) \<le> 1)"
proof -
  from assms(4) have "pk_invariant db0" "distinct (map c_donation_id (claims db0))"
    by (simp_all add: pk_invariant_initial) (simp add: initial_def)
  then have "distinct (map c_donation_id (claims (run db0 ops)))" by (rule run_one_claim)
  then have "\<forall>j. length (filter (\<lambda>c. c_donation_id c = j) (claims (run db0 ops))) \<le> 1"
    using distinct_map_filter_le1 [of c_donation_id "claims (run db0 ops)"] by simp
  then show ?thesis using claim_donation_has_claim [OF assms(1-3), of today now req] by simp
qed

theorem claim_on_claimed_donation_rejected_witness:
  "is_ngo other_ngo
   \<and> get_donation db_claimed 1 = Some (bread\<lparr>d_status := D_claimed, d_updated_at := 30\<rparr>)
   \<and> claim_of db_claimed (bread\<lparr>d_status := D_claimed, d_updated_at := 30\<rparr>) \<noteq> None
   \<and> initial db_empty
   \<and> claim_donation 100 35 (Some other_ngo) 1 (POST \<lparr>cf_notes = []\<rparr>) db_claimed
       = reply db_claimed [(''This donation is no longer available for claiming.'', ''error'')]
           (Redirect (Ngo_view_donation 1))
   \<and> length (filter (\<lambda>c. c_donation_id c = 1) (claims (run db_empty listing_and_claim))) \<le> 1"
proof -
  have h1: "is_ngo other_ngo" by (simp add: other_ngo_def ngo_user_def is_ngo_def)
  have h2: "get_donation db_claimed 1 = Some (bread\<lparr>d_status := D_claimed, d_updated_at := 30\<rparr>)"
    by (simp add: get_donation_def db_claimed_def db_empty_def bread_def)
  have h3: "claim_of db_claimed (bread\<lparr>d_status := D_claimed, d_updated_at := 30\<rparr>) \<noteq> None"
    by (simp add: claim_of_def db_claimed_def db_empty_def bread_def bread_claim_def)
  have h4: "initial db_empty" by (rule initial_db_empty)
  have h5: "\<not> can_be_claimed 100 (bread\<lparr>d_status := D_claimed, d_updated_at := 30\<rparr>)"
    by (simp add: can_be_claimed_def)
  from claim_on_claimed_donation_rejected [OF h1 h2 h3 h4, of 100 35 "POST \<lparr>cf_notes = []\<rparr>" listing_and_claim]
    h1 h2 h3 h4 h5 show ?thesis by simp
qed

subsection \<open>A cancelled claim blocks the donation\<close>

text \<open>
  The cancelled claim row goes away only with its donation. When the donor deletes the
  donation of the example after the cancellation, the tables are empty again; the next
  donation gets the id 1 once more, and a claim-donation request for the id 1 then
  creates a claim of the new donation.
\<close>

lemma delete_cancelled_bread:
  "out_db (delete_donation (Some donor_user) 1 db_cancelled) = db_empty"
  by (simp add: delete_donation_def login_required_def donor_required_def get_own_donation_def
        can_be_edited_def db_cancelled_def db_claimed_def db_empty_def bread_def bread_claim_def
        donor_user_def is_donor_def)

lemma reissued_id_example:
  "run db_cancelled (Op_delete_donation (Some donor_user) 1 # listing_and_claim) = db_claimed"
  using delete_cancelled_bread run_listing_and_claim by simp

text \<open>
  Claim C10. Take a state of a run in which donation \<open>i\<close> is available and its claim is
  cancelled. While the donation is not expired it is reported as available and
  \<^verbatim>\<open>can_be_claimed\<close>, yet a claim-donation request by any NGO is rejected with "already
  been claimed by another NGO", because the cancelled claim row is still there. The row
  stays for as long as the donation does: in every later state of the run up to which
  the donation has been kept, the donation has a claim, and a claim-donation request for
  \<open>i\<close> by any visitor leaves the database as it is and never redirects to a new claim.
\<close>

theorem cancelled_donation_never_reclaimed:
  assumes init: "initial db0"
    and d: "get_donation (run db0 ops) i = Some d"
    and c: "claim_of (run db0 ops) d = Some c"
    and cs: "c_status c = C_cancelled" and ds: "d_status d = D_available"
  shows "(today \<le> d_expiry_date d \<longrightarrow>
            is_available today d \<and> can_be_claimed today d
          \<and> (\<forall>v. is_ngo v \<longrightarrow>
                claim_donation today now (Some v) i req (run db0 ops)
                  = reply (run db0 ops)
                      [(''This donation has already been claimed by another NGO.'', ''error'')]
                      (Redirect (Ngo_view_donation i))))
       \<and> (\<forall>ops' today' now' cu req'.
             donation_kept i (run db0 ops) ops' \<longrightarrow>
               (\<exists>d'. get_donation (run db0 (ops @ ops')) i = Some d'
                     \<and> claim_of (run db0 (ops @ ops')) d' \<noteq> None)
             \<and> out_db (claim_donation today' now' cu i req' (run db0 (ops @ ops')))
                 = run db0 (ops @ ops')
             \<and> (\<forall>k. response (claim_donation today' now' cu i req' (run db0 (ops @ ops')))
                      \<noteq> Redirect (Ngo_view_claim k)))"
proof (intro conjI impI allI)
  assume fresh: "today \<le> d_expiry_date d"
  with ds show "is_available today d" "can_be_claimed today d"
    by (simp_all add: is_available_def can_be_claimed_def is_expired_def)
  fix v assume "is_ngo v"
  from claim_donation_has_claim [OF this d, of today now req] c fresh ds
  show "claim_donation today now (Some v) i req (run db0 ops)
                  = reply (run db0 ops)
                      [(''This donation has already been claimed by another NGO.'', ''error'')]
                      (Redirect (Ngo_view_donation i))"
    by (simp add: can_be_claimed_def is_expired_def)
next
  fix ops' today' now' cu req'
  assume kept: "donation_kept i (run db0 ops) ops'"
  have pk: "pk_invariant (run db0 ops)"
    using init by (intro run_pk_invariant pk_invariant_initial)
  from get_donation_Some [OF d] have di: "d_id d = i" by simp
  from c have "d_id d \<in> set (map c_donation_id (claims (run db0 ops)))"
    using claim_of_None_iff [of "run db0 ops" d] by simp
  with di have ref: "i \<in> set (map c_donation_id (claims (run db0 ops)))" by simp
  from run_keeps_claim [OF pk kept ref]
  have row': "get_donation (run db0 (ops @ ops')) i \<noteq> None"
    and ref': "i \<in> set (map c_donation_id (claims (run db0 (ops @ ops'))))"
    unfolding run_append by simp_all
  from row' obtain d' where d': "get_donation (run db0 (ops @ ops')) i = Some d'" by auto
  from get_donation_Some [OF d'] ref'
  have "claim_of (run db0 (ops @ ops')) d' \<noteq> None" by (simp add: claim_of_None_iff)
  with d' show "\<exists>d'. get_donation (run db0 (ops @ ops')) i = Some d'
                     \<and> claim_of (run db0 (ops @ ops')) d' \<noteq> None" by blast
  from ref' have "i \<in> set (map c_donation_id (claims (run db0 (ops @ ops'))))
         \<or> i \<notin> set (map d_id (food_donations (run db0 (ops @ ops'))))" by simp
  from claim_donation_blocked [OF this, of today' now' cu req']
  show "out_db (claim_donation today' now' cu i req' (run db0 (ops @ ops'))) = run db0 (ops @ ops')"
    and "\<And>k. response (claim_donation today' now' cu i req' (run db0 (ops @ ops')))
                    \<noteq> Redirect (Ngo_view_claim k)"
    by simp_all
qed

text \<open>
  The example: after the cancellation the NGO asks to delete the donation, which only
  its donor may do, so the donation is kept; the request of the second NGO to claim it
  is then rejected.
\<close>

theorem cancelled_donation_never_reclaimed_witness:
  "initial db_empty
   \<and> get_donation (run db_empty cancel_scenario) 1 = Some (bread\<lparr>d_updated_at := 40\<rparr>)
   \<and> claim_of (run db_empty cancel_scenario) (bread\<lparr>d_updated_at := 40\<rparr>)
       = Some (bread_claim\<lparr>c_status := C_cancelled, c_notes := Some ''Cancelled: Cancelled by NGO''\<rparr>)
   \<and> d_status (bread\<lparr>d_updated_at := 40\<rparr>) = D_available
   \<and> 101 \<le> d_expiry_date (bread\<lparr>d_updated_at := 40\<rparr>)
   \<and> can_be_claimed 101 (bread\<lparr>d_updated_at := 40\<rparr>)
   \<and> is_ngo ngo_user
   \<and> claim_donation 101 50 (Some ngo_user) 1 (POST \<lparr>cf_notes = []\<rparr>) (run db_empty cancel_scenario)
       = reply (run db_empty cancel_scenario)
           [(''This donation has already been claimed by another NGO.'', ''error'')]
           (Redirect (Ngo_view_donation 1))
   \<and> donation_kept 1 (run db_empty cancel_scenario) [Op_delete_donation (Some ngo_user) 1]
   \<and> out_db (claim_donation 102 60 (Some other_ngo) 1 (POST \<lparr>cf_notes = []\<rparr>)
               (run db_empty (cancel_scenario @ [Op_delete_donation (Some ngo_user) 1])))
       = run db_empty (cancel_scenario @ [Op_delete_donation (Some ngo_user) 1])"
proof -
  have h1: "initial db_empty" by (rule initial_db_empty)
  have h2: "get_donation (run db_empty cancel_scenario) 1 = Some (bread\<lparr>d_updated_at := 40\<rparr>)"
    unfolding run_cancel_scenario
    by (simp add: get_donation_def db_cancelled_def db_claimed_def db_empty_def bread_def)
  have h3: "claim_of (run db_empty cancel_scenario) (bread\<lparr>d_updated_at := 40\<rparr>)
       = Some (bread_claim\<lparr>c_status := C_cancelled, c_notes := Some ''Cancelled: Cancelled by NGO''\<rparr>)"
    unfolding run_cancel_scenario
    by (simp add: claim_of_def db_cancelled_def db_claimed_def db_empty_def bread_def bread_claim_def)
  have h4: "c_status (bread_claim\<lparr>c_status := C_cancelled, c_notes := Some ''Cancelled: Cancelled by NGO''\<rparr>)
              = C_cancelled" by simp
  have h5: "d_status (bread\<lparr>d_updated_at := 40\<rparr>) = D_available" by (simp add: bread_def)
  have h6: "101 \<le> d_expiry_date (bread\<lparr>d_updated_at := 40\<rparr>)" by (simp add: bread_def)
  have h7: "is_ngo ngo_user" by (simp add: ngo_user_def is_ngo_def)
  have h8: "donation_kept 1 (run db_empty cancel_scenario) [Op_delete_donation (Some ngo_user) 1]"
    unfolding run_cancel_scenario
    by (simp add: delete_donation_def login_required_def donor_required_def is_donor_def
          ngo_user_def reply_def get_donation_def db_cancelled_def db_claimed_def db_empty_def
          bread_def)
  note t = cancelled_donation_never_reclaimed [OF h1 h2 h3 h4 h5, of 101 50 "POST \<lparr>cf_notes = []\<rparr>"]
  from t h6 have a: "can_be_claimed 101 (bread\<lparr>d_updated_at := 40\<rparr>)" by blast
  from t h6 h7 have b: "claim_donation 101 50 (Some ngo_user) 1 (POST \<lparr>cf_notes = []\<rparr>) (run db_empty cancel_scenario)
       = reply (run db_empty cancel_scenario)
           [(''This donation has already been claimed by another NGO.'', ''error'')]
           (Redirect (Ngo_view_donation 1))" by blast
  from t h8 have c: "out_db (claim_donation 102 60 (Some other_ngo) 1 (POST \<lparr>cf_notes = []\<rparr>)
               (run db_empty (cancel_scenario @ [Op_delete_donation (Some ngo_user) 1])))
       = run db_empty (cancel_scenario @ [Op_delete_donation (Some ngo_user) 1])" by blast
  from h1 h2 h3 h5 h6 h7 h8 a b c show ?thesis by blast
qed

subsection \<open>Donations with a claim are claimed or completed, until a cancellation\<close>

lemma d_status_flush_obj: "d_status (flush_donation now r obj) = d_status obj"
proof (cases "obj = r")
  case True
  then show ?thesis by (simp add: flush_donation_def)
next
  case False
  then show ?thesis by (simp add: flush_donation_def)
qed

lemma d_id_flush_obj: "d_id obj = d_id r \<Longrightarrow> d_id (flush_donation now r obj) = d_id r"
  by (simp add: flush_donation_def)

lemma claimed_or_completed_refs:
  "claimed_or_completed db \<longleftrightarrow>
     (\<forall>d \<in> set (food_donations db).
        d_id d \<in> set (map c_donation_id (claims db)) \<longrightarrow> d_status d \<in> {D_claimed, D_completed})"
  unfolding claimed_or_completed_def claim_of_None_iff by simp

lemma claimed_or_completed_map:
  assumes "claimed_or_completed db"
    and "food_donations db' = map f (food_donations db)"
    and "set (map c_donation_id (claims db')) \<subseteq> set (map c_donation_id (claims db)) \<union> J"
    and "\<And>r. r \<in> set (food_donations db) \<Longrightarrow>
           d_id (f r) = d_id r
           \<and> (d_id r \<in> J \<longrightarrow> d_status (f r) \<in> {D_claimed, D_completed})
           \<and> (f r = r \<or> d_status (f r) \<in> {D_claimed, D_completed}
                \<or> d_id r \<notin> set (map c_donation_id (claims db)))"
  shows "claimed_or_completed db'"
  unfolding claimed_or_completed_refs
proof (intro ballI impI)
  fix r' assume r': "r' \<in> set (food_donations db')"
    and ref: "d_id r' \<in> set (map c_donation_id (claims db'))"
  from r' assms(2) obtain r where r: "r \<in> set (food_donations db)" "r' = f r" by auto
  note fr = assms(4) [OF r(1)]
  from ref assms(3) r(2) fr have "d_id r \<in> J \<or> d_id r \<in> set (map c_donation_id (claims db))"
    by auto
  then show "d_status r' \<in> {D_claimed, D_completed}"
  proof
    assume "d_id r \<in> J"
    with fr r(2) show ?thesis by simp
  next
    assume in_refs: "d_id r \<in> set (map c_donation_id (claims db))"
    with assms(1) r(1) have "d_status r \<in> {D_claimed, D_completed}"
      unfolding claimed_or_completed_refs by blast
    with fr in_refs r(2) show ?thesis by auto
  qed
qed

lemma claimed_or_completed_write:
  assumes "claimed_or_completed db"
    and "food_donations db' = write_donation now obj (food_donations db)"
    and "d_status obj \<in> {D_claimed, D_completed}
           \<and> set (map c_donation_id (claims db')) \<subseteq> insert (d_id obj) (set (map c_donation_id (claims db)))
         \<or> d_id obj \<notin> set (map c_donation_id (claims db))
           \<and> set (map c_donation_id (claims db')) \<subseteq> set (map c_donation_id (claims db))"
  shows "claimed_or_completed db'"
proof (rule claimed_or_completed_map [OF assms(1), where
      J = "if d_status obj \<in> {D_claimed, D_completed} then {d_id obj} else {}"
      and f = "\<lambda>r. if d_id r = d_id obj then flush_donation now r obj else r"])
  show "food_donations db' = map (\<lambda>r. if d_id r = d_id obj then flush_donation now r obj else r) (food_donations db)"
    using assms(2) by (simp add: write_donation_def)
  show "set (map c_donation_id (claims db')) \<subseteq> set (map c_donation_id (claims db))
          \<union> (if d_status obj \<in> {D_claimed, D_completed} then {d_id obj} else {})"
    using assms(3) by auto
  fix r assume r: "r \<in> set (food_donations db)"
  show "d_id (if d_id r = d_id obj then flush_donation now r obj else r) = d_id r \<and>
         (d_id r \<in> (if d_status obj \<in> {D_claimed, D_completed} then {d_id obj} else {}) \<longrightarrow>
          d_status (if d_id r = d_id obj then flush_donation now r obj else r) \<in> {D_claimed, D_completed}) \<and>
         ((if d_id r = d_id obj then flush_donation now r obj else r) = r \<or>
          d_status (if d_id r = d_id obj then flush_donation now r obj else r) \<in> {D_claimed, D_completed} \<or>
          d_id r \<notin> set (map c_donation_id (claims db)))"
    using assms(3) by (auto simp: d_status_flush_obj d_id_flush_obj)
qed

lemma claimed_or_completed_commit_session:
  assumes coc: "claimed_or_completed db" and dc: "distinct (map c_id (claims db))"
    and claim: "claim \<in> set (claims db)" "c_id c' = c_id claim" "c_donation_id c' = c_donation_id claim"
    and dopt: "dopt = None \<or> (\<exists>d. dopt = Some d \<and> d_status d \<in> {D_claimed, D_completed})"
  shows "claimed_or_completed (commit_session now (c', dopt) db)"
proof -
  have refs: "map c_donation_id (claims (commit_session now (c', dopt) db)) = map c_donation_id (claims db)"
    using map_c_donation_id_write_claim [OF dc claim] by (simp add: commit_session_def)
  from dopt show ?thesis
  proof
    assume "dopt = None"
    then have "food_donations (commit_session now (c', dopt) db) = food_donations db"
      by (simp add: commit_session_def)
    with coc refs show ?thesis unfolding claimed_or_completed_refs by simp
  next
    assume "\<exists>d. dopt = Some d \<and> d_status d \<in> {D_claimed, D_completed}"
    then obtain d where d: "dopt = Some d" "d_status d \<in> {D_claimed, D_completed}" by blast
    show ?thesis
    proof (rule claimed_or_completed_write [OF coc, where obj = d and now = now])
      show "food_donations (commit_session now (c', dopt) db) = write_donation now d (food_donations db)"
        using d(1) by (simp add: commit_session_def)
      show "d_status d \<in> {D_claimed, D_completed}
           \<and> set (map c_donation_id (claims (commit_session now (c', dopt) db)))
               \<subseteq> insert (d_id d) (set (map c_donation_id (claims db)))
         \<or> d_id d \<notin> set (map c_donation_id (claims db))
           \<and> set (map c_donation_id (claims (commit_session now (c', dopt) db)))
               \<subseteq> set (map c_donation_id (claims db))"
        using d(2) refs by auto
    qed
  qed
qed

lemma snd_mark_as_completed:
  "snd (mark_as_completed now (c, dopt)) = None
   \<or> (\<exists>d. snd (mark_as_completed now (c, dopt)) = Some d \<and> d_status d \<in> {D_claimed, D_completed})"
  by (cases dopt) (simp_all add: mark_as_completed_def)

lemma claim_status_of_cancelled:
  "claim_status_of s = Some C_cancelled \<longleftrightarrow> s = ''cancelled''"
  by (simp add: claim_status_of_def)

lemma update_claim_claimed_or_completed:
  assumes coc: "claimed_or_completed db" and dc: "distinct (map c_id (claims db))"
    and nc: "\<not> cancels (Op_update_claim now cu i req)"
  shows "claimed_or_completed (out_db (update_claim now cu i req db))"
proof (cases "\<exists>u claim form st. cu = Some u \<and> is_ngo u \<and> get_own_claim db i (u_id u) = Some claim
          \<and> req = POST form \<and> claim_status_of (uf_status form) = Some st \<and> validate_UpdateClaimForm form")
  case True
  then obtain u claim form st where h: "cu = Some u" "is_ngo u" "get_own_claim db i (u_id u) = Some claim"
    "req = POST form" "claim_status_of (uf_status form) = Some st" "validate_UpdateClaimForm form"
    by blast
  from nc h(4,5) have st: "st \<noteq> C_cancelled" using claim_status_of_cancelled [of "uf_status form"] by auto
  define claim1 where "claim1 = claim\<lparr>c_status := st,
        c_notes := (if uf_notes form \<noteq> [] then Some (strip (uf_notes form)) else c_notes claim)\<rparr>"
  define s where "s = (if st = C_completed \<and> c_status claim \<noteq> C_completed
        then mark_as_completed now (claim1, donation_of db claim) else (claim1, None))"
  have out: "out_db (update_claim now cu i req db) = commit_session now (fst s, snd s) db"
    unfolding h(1,4) update_claim_out [OF h(2,3,5,6)] s_def claim1_def using st by simp
  have ids: "c_id (fst s) = c_id claim" "c_donation_id (fst s) = c_donation_id claim"
    unfolding s_def claim1_def by (simp_all add: mark_as_completed_ids)
  have dopt: "snd s = None \<or> (\<exists>d. snd s = Some d \<and> d_status d \<in> {D_claimed, D_completed})"
    unfolding s_def using snd_mark_as_completed [of now claim1 "donation_of db claim"] by simp
  show ?thesis unfolding out
    by (rule claimed_or_completed_commit_session [OF coc dc own_claim_set [OF h(3)] ids dopt])
next
  case False
  then show ?thesis using coc by (simp add: update_claim_unchanged)
qed

lemma complete_pickup_claimed_or_completed:
  assumes coc: "claimed_or_completed db" and dc: "distinct (map c_id (claims db))"
  shows "claimed_or_completed (out_db (complete_pickup now cu i db))"
proof (cases "\<exists>u claim. cu = Some u \<and> is_ngo u \<and> get_own_claim db i (u_id u) = Some claim
          \<and> c_status claim \<noteq> C_completed")
  case True
  then obtain u claim where h: "cu = Some u" "is_ngo u" "get_own_claim db i (u_id u) = Some claim"
    "c_status claim \<noteq> C_completed" by blast
  define s where "s = mark_as_completed now (claim, donation_of db claim)"
  have out: "out_db (complete_pickup now cu i db) = commit_session now (fst s, snd s) db"
    unfolding h(1) complete_pickup_out [OF h(2,3,4)] s_def by simp
  have ids: "c_id (fst s) = c_id claim" "c_donation_id (fst s) = c_donation_id claim"
    unfolding s_def by (simp_all add: mark_as_completed_ids)
  have dopt: "snd s = None \<or> (\<exists>d. snd s = Some d \<and> d_status d \<in> {D_claimed, D_completed})"
    unfolding s_def by (rule snd_mark_as_completed)
  show ?thesis unfolding out
    by (rule claimed_or_completed_commit_session [OF coc dc own_claim_set [OF h(3)] ids dopt])
next
  case False
  then show ?thesis using coc by (simp add: complete_pickup_unchanged)
qed

lemma claim_donation_claimed_or_completed:
  assumes coc: "claimed_or_completed db"
  shows "claimed_or_completed (out_db (claim_donation today now cu i req db))"
  using claim_donation_effect [of today now cu i req db]
proof
  assume "out_db (claim_donation today now cu i req db) = db"
  with coc show ?thesis by simp
next
  assume "\<exists>u d c. cu = Some u \<and> is_ngo u \<and> get_donation db i = Some d \<and> can_be_claimed today d
        \<and> claim_of db d = None
        \<and> c_id c = next_rowid (map c_id (claims db)) \<and> c_donation_id c = d_id d \<and> c_status c = C_claimed
        \<and> out_db (claim_donation today now cu i req db)
            = db\<lparr>claims := claims db @ [c],
                 food_donations := write_donation now (d\<lparr>d_status := D_claimed\<rparr>) (food_donations db)\<rparr>"
  then obtain d c where h: "c_donation_id c = d_id d"
    "out_db (claim_donation today now cu i req db)
            = db\<lparr>claims := claims db @ [c],
                 food_donations := write_donation now (d\<lparr>d_status := D_claimed\<rparr>) (food_donations db)\<rparr>"
    by blast
  show ?thesis unfolding h(2)
    by (rule claimed_or_completed_write [OF coc, where obj = "d\<lparr>d_status := D_claimed\<rparr>" and now = now])
       (simp_all add: h(1))
qed

lemma add_donation_claimed_or_completed:
  assumes coc: "claimed_or_completed db" and pk: "pk_invariant db"
  shows "claimed_or_completed (out_db (add_donation today now cu req db))"
  using add_donation_effect [of today now cu req db]
proof
  assume "out_db (add_donation today now cu req db) = db"
  with coc show ?thesis by simp
next
  assume "\<exists>d. d_id d = next_rowid (map d_id (food_donations db)) \<and> d_status d = D_available
        \<and> out_db (add_donation today now cu req db)
            = db\<lparr>food_donations := food_donations db @ [d]\<rparr>"
  then obtain d where h: "d_id d = next_rowid (map d_id (food_donations db))"
    "out_db (add_donation today now cu req db)
            = db\<lparr>food_donations := food_donations db @ [d]\<rparr>" by blast
  from pk h(1) next_rowid_fresh [of "map d_id (food_donations db)"]
  have "d_id d \<notin> set (map c_donation_id (claims db))"
    unfolding pk_invariant_maps by auto
  with coc show ?thesis unfolding h(2) claimed_or_completed_refs by auto
qed

lemma edit_donation_effect:
  "out_db (edit_donation today now cu i req db) = db
   \<or> (\<exists>d d'. d \<in> set (food_donations db) \<and> d_status d = D_available \<and> d_id d' = d_id d
        \<and> d_status d' = D_available
        \<and> out_db (edit_donation today now cu i req db)
            = db\<lparr>food_donations := write_donation now d' (food_donations db)\<rparr>)"
proof (cases "\<exists>u d form. cu = Some u \<and> is_donor u \<and> get_own_donation db i (u_id u) = Some d
        \<and> can_be_edited d \<and> req = POST form \<and> validate_FoodDonationForm today db form")
  case True
  then obtain u d form where h: "cu = Some u" "is_donor u" "get_own_donation db i (u_id u) = Some d"
    "can_be_edited d" "req = POST form" "validate_FoodDonationForm today db form" by blast
  define d' where "d' = d\<lparr>
                              d_category_id := the (f_category_id form),
                              d_title := strip (f_title form),
                              d_description := strip_or_None (f_description form),
                              d_quantity := the (f_quantity form),
                              d_unit := f_unit form,
                              d_expiry_date := the (f_expiry_date form),
                              d_pickup_address := strip (f_pickup_address form),
                              d_pickup_city := strip (f_pickup_city form),
                              d_pickup_instructions := strip_or_None (f_pickup_instructions form),
                              d_is_perishable := f_is_perishable form,
                              d_dietary_info := (if f_dietary_info form \<noteq> [] then Some (f_dietary_info form) else None)\<rparr>"
  have out: "out_db (edit_donation today now cu i req db)
            = db\<lparr>food_donations := write_donation now d' (food_donations db)\<rparr>"
    using h unfolding d'_def
    by (simp add: edit_donation_def login_required_def donor_required_def Let_def)
  have "d \<in> set (food_donations db)" using get_own_donation_Some [OF h(3)] by simp
  moreover have "d_status d = D_available" using h(4) by (simp add: can_be_edited_def)
  moreover have "d_id d' = d_id d \<and> d_status d' = d_status d" by (simp add: d'_def)
  ultimately show ?thesis using out by auto
next
  case False
  then have "out_db (edit_donation today now cu i req db) = db"
    by (auto simp: edit_donation_def login_required_def donor_required_def
        split: option.splits request.splits)
  then show ?thesis by simp
qed

lemma edit_donation_claimed_or_completed:
  assumes coc: "claimed_or_completed db"
  shows "claimed_or_completed (out_db (edit_donation today now cu i req db))"
  using edit_donation_effect [of today now cu i req db]
proof
  assume "out_db (edit_donation today now cu i req db) = db"
  with coc show ?thesis by simp
next
  assume "\<exists>d d'. d \<in> set (food_donations db) \<and> d_status d = D_available \<and> d_id d' = d_id d
        \<and> d_status d' = D_available
        \<and> out_db (edit_donation today now cu i req db)
            = db\<lparr>food_donations := write_donation now d' (food_donations db)\<rparr>"
  then obtain d d' where h: "d \<in> set (food_donations db)" "d_status d = D_available" "d_id d' = d_id d"
    "out_db (edit_donation today now cu i req db)
            = db\<lparr>food_donations := write_donation now d' (food_donations db)\<rparr>" by blast
  from coc h(1,2) have "d_id d \<notin> set (map c_donation_id (claims db))"
    unfolding claimed_or_completed_refs by force
  with h(3) show ?thesis unfolding h(4)
    by (intro claimed_or_completed_write [OF coc, where obj = d' and now = now]) simp_all
qed

lemma delete_donation_claimed_or_completed:
  assumes coc: "claimed_or_completed db"
  shows "claimed_or_completed (out_db (delete_donation cu i db))"
  using delete_donation_effect [of cu i db]
proof
  assume "out_db (delete_donation cu i db) = db"
  with coc show ?thesis by simp
next
  assume "(\<exists>d \<in> set (food_donations db). d_id d = i \<and> d_status d = D_available)
        \<and> out_db (delete_donation cu i db)
            = db\<lparr>food_donations := filter (\<lambda>r. d_id r \<noteq> i) (food_donations db),
                 claims := filter (\<lambda>c. c_donation_id c \<noteq> i) (claims db)\<rparr>"
  then have out: "out_db (delete_donation cu i db)
            = db\<lparr>food_donations := filter (\<lambda>r. d_id r \<noteq> i) (food_donations db),
                 claims := filter (\<lambda>c. c_donation_id c \<noteq> i) (claims db)\<rparr>" by simp
  show ?thesis unfolding out claimed_or_completed_refs
  proof (intro ballI impI)
    fix d
    assume "d \<in> set (food_donations (db\<lparr>food_donations := filter (\<lambda>r. d_id r \<noteq> i) (food_donations db),
                 claims := filter (\<lambda>c. c_donation_id c \<noteq> i) (claims db)\<rparr>))"
      and "d_id d \<in> set (map c_donation_id (claims (db\<lparr>food_donations := filter (\<lambda>r. d_id r \<noteq> i) (food_donations db),
                 claims := filter (\<lambda>c. c_donation_id c \<noteq> i) (claims db)\<rparr>)))"
    then have "d \<in> set (food_donations db)" "d_id d \<in> set (map c_donation_id (claims db))"
      by auto
    with coc show "d_status d \<in> {D_claimed, D_completed}"
      unfolding claimed_or_completed_refs by blast
  qed
qed

lemma expire_claimed_or_completed:
  assumes coc: "claimed_or_completed db"
  shows "claimed_or_completed (db\<lparr>food_donations :=
          map (\<lambda>r. if r \<in> S \<and> d_status r = D_available \<and> d_expiry_date r < today
                    then r\<lparr>d_status := D_expired, d_updated_at := now\<rparr> else r) (food_donations db)\<rparr>)"
proof (rule claimed_or_completed_map [OF coc, where J = "{}"
      and f = "\<lambda>r. if r \<in> S \<and> d_status r = D_available \<and> d_expiry_date r < today
                    then r\<lparr>d_status := D_expired, d_updated_at := now\<rparr> else r"])
  fix r assume r: "r \<in> set (food_donations db)"
  with coc have "d_status r = D_available \<longrightarrow> d_id r \<notin> set (map c_donation_id (claims db))"
    unfolding claimed_or_completed_refs by force
  then show "d_id (if r \<in> S \<and> d_status r = D_available \<and> d_expiry_date r < today
                    then r\<lparr>d_status := D_expired, d_updated_at := now\<rparr> else r) = d_id r \<and>
         (d_id r \<in> {} \<longrightarrow>
          d_status (if r \<in> S \<and> d_status r = D_available \<and> d_expiry_date r < today
                    then r\<lparr>d_status := D_expired, d_updated_at := now\<rparr> else r) \<in> {D_claimed, D_completed}) \<and>
         ((if r \<in> S \<and> d_status r = D_available \<and> d_expiry_date r < today
                    then r\<lparr>d_status := D_expired, d_updated_at := now\<rparr> else r) = r \<or>
          d_status (if r \<in> S \<and> d_status r = D_available \<and> d_expiry_date r < today
                    then r\<lparr>d_status := D_expired, d_updated_at := now\<rparr> else r) \<in> {D_claimed, D_completed} \<or>
          d_id r \<notin> set (map c_donation_id (claims db)))"
    by auto
qed simp_all

lemma perform_claimed_or_completed:
  assumes coc: "claimed_or_completed db" and pk: "pk_invariant db" and nc: "\<not> cancels op"
  shows "claimed_or_completed (perform op db)"
proof -
  from pk have dc: "distinct (map c_id (claims db))" and dd: "distinct (map d_id (food_donations db))"
    by (simp_all add: pk_invariant_def)
  show ?thesis
  proof (cases op)
    case (Op_claim_donation today now cu i req)
    then show ?thesis using claim_donation_claimed_or_completed [OF coc] by simp
  next
    case (Op_update_claim now cu i req)
    then show ?thesis using update_claim_claimed_or_completed [OF coc dc] nc by simp
  next
    case (Op_cancel_claim now cu i reason)
    then show ?thesis using nc by simp
  next
    case (Op_complete_pickup now cu i)
    then show ?thesis using complete_pickup_claimed_or_completed [OF coc dc] by simp
  next
    case (Op_add_donation today now cu req)
    then show ?thesis using add_donation_claimed_or_completed [OF coc pk] by simp
  next
    case (Op_edit_donation today now cu i req)
    then show ?thesis using edit_donation_claimed_or_completed [OF coc] by simp
  next
    case (Op_delete_donation cu i)
    then show ?thesis using delete_donation_claimed_or_completed [OF coc] by simp
  next
    case (Op_donor_dashboard today now cu)
    obtain S where "out_db (donor_dashboard today now cu db) =
       db\<lparr>food_donations := map (\<lambda>r. if r \<in> S \<and> d_status r = D_available \<and> d_expiry_date r < today
                    then r\<lparr>d_status := D_expired, d_updated_at := now\<rparr> else r) (food_donations db)\<rparr>"
      using donor_dashboard_rows by blast
    then show ?thesis using Op_donor_dashboard expire_claimed_or_completed [OF coc] by simp
  next
    case (Op_donor_view_donation today now cu i)
    obtain S where "out_db (donor_view_donation today now cu i db) =
       db\<lparr>food_donations := map (\<lambda>r. if r \<in> S \<and> d_status r = D_available \<and> d_expiry_date r < today
                    then r\<lparr>d_status := D_expired, d_updated_at := now\<rparr> else r) (food_donations db)\<rparr>"
      using donor_view_donation_rows [OF dd] by blast
    then show ?thesis using Op_donor_view_donation expire_claimed_or_completed [OF coc] by simp
  qed
qed

lemma run_claimed_or_completed:
  "claimed_or_completed db \<Longrightarrow> pk_invariant db \<Longrightarrow> \<forall>op \<in> set ops. \<not> cancels op
     \<Longrightarrow> claimed_or_completed (run db ops)"
  by (induction ops arbitrary: db)
     (simp_all add: perform_claimed_or_completed perform_pk_invariant)

text \<open>
  Claim C1 says that in every reachable state a donation with a claim is claimed or
  completed. \<^verbatim>\<open>Claim.cancel_claim\<close> sets the donation back to available and keeps the
  claim row: after the listing, the claim and the cancellation of the example, the bread
  has a (cancelled) claim and status available.
\<close>

theorem claimed_or_completed_counterexample:
  "initial db_empty
   \<and> run db_empty cancel_scenario = db_cancelled
   \<and> get_donation db_cancelled 1 = Some (bread\<lparr>d_updated_at := 40\<rparr>)
   \<and> claim_of db_cancelled (bread\<lparr>d_updated_at := 40\<rparr>)
       = Some (bread_claim\<lparr>c_status := C_cancelled, c_notes := Some ''Cancelled: Cancelled by NGO''\<rparr>)
   \<and> d_status (bread\<lparr>d_updated_at := 40\<rparr>) = D_available
   \<and> \<not> claimed_or_completed (run db_empty cancel_scenario)"
  unfolding run_cancel_scenario
  by (simp add: initial_db_empty)
     (simp add: get_donation_def claim_of_def claimed_or_completed_def db_cancelled_def
        db_claimed_def db_empty_def bread_def bread_claim_def)

text \<open>
  Claim C1, amended. In every state reachable from a database without donations and
  claims through the operations other than a cancellation (claim creation, update-claim
  with a target status other than \<^verbatim>\<open>cancelled\<close>, complete-pickup, donation
  create/edit/delete, expiry sweep), every donation that has a claim has status claimed
  or completed.
\<close>

theorem claimed_or_completed_without_cancellation:
  assumes "initial db0" and "\<forall>op \<in> set ops. \<not> cancels op"
  shows "claimed_or_completed (run db0 ops)"
proof -
  from assms(1) have "claimed_or_completed db0"
    by (simp add: initial_def claimed_or_completed_def)
  moreover from assms(1) have "pk_invariant db0" by (rule pk_invariant_initial)
  ultimately show ?thesis using assms(2) by (rule run_claimed_or_completed)
qed

theorem claimed_or_completed_without_cancellation_witness:
  "initial db_empty \<and> filter cancels listing_and_claim = []
   \<and> claimed_or_completed (run db_empty listing_and_claim)
   \<and> run db_empty listing_and_claim = db_claimed
   \<and> claim_of db_claimed (bread\<lparr>d_status := D_claimed, d_updated_at := 30\<rparr>) = Some bread_claim"
proof -
  have h1: "initial db_empty" by (rule initial_db_empty)
  have h2: "\<forall>op \<in> set listing_and_claim. \<not> cancels op" by (simp add: listing_and_claim_def)
  have h3: "claim_of db_claimed (bread\<lparr>d_status := D_claimed, d_updated_at := 30\<rparr>) = Some bread_claim"
    by (simp add: claim_of_def db_claimed_def db_empty_def bread_def bread_claim_def)
  have h4: "filter cancels listing_and_claim = []" by (simp add: listing_and_claim_def)
  from claimed_or_completed_without_cancellation [OF h1 h2] h1 h3 h4 run_listing_and_claim
  show ?thesis by simp
qed

subsection \<open>Registration of an NGO\<close>

lemma lower_examples:
  "lower ''newngo'' = ''newngo''" "lower ''new@x.org'' = ''new@x.org''"
  "lower ''g@x.com'' = ''g@x.com''"
  by (simp_all add: lower_def lower_char_def)

lemma strip_registration_examples:
  "strip ''newngo'' = ''newngo''" "strip ''new@x.org'' = ''new@x.org''"
  "strip ''secret1'' = ''secret1''" "strip ''ngo'' = ''ngo''"
  "strip ''New Org Contact'' = ''New Org Contact''" "strip ''   '' = []"
  "strip ''REG789'' = ''REG789''" "strip ''g@x.com'' = ''g@x.com''"
  by (simp_all add: strip_def lstrip_def rstrip_def isspace_def)

lemma blank_ngo_form_errors:
  assumes "valid_email ''new@x.org''"
  shows "concat (map snd (RegistrationForm_errors valid_email db_empty blank_ngo_form)) = []"
  using assms
  by (simp add: RegistrationForm_errors_def blank_ngo_form_def v_DataRequired_def DataRequired_def
      v_Length_def v_check_def validate_username_def validate_email_def
      validate_organization_name_def validate_registration_number_def passes_def raises_def
      stops_def run_chain_def strip_registration_examples lower_examples db_empty_def donor_user_def
      ngo_user_def other_ngo_def)

lemma empty_user_type_errors:
  assumes "rf_user_type form = []"
  shows "map_of (RegistrationForm_errors valid_email db form) ''user_type''
           = Some [''Please select your user type.'']"
  using assms
  by (simp add: RegistrationForm_errors_def run_chain_def v_check_def v_DataRequired_def
        DataRequired_def strip_def lstrip_def rstrip_def passes_def raises_def stops_def)

lemma validate_RegistrationForm_concat:
  "validate_RegistrationForm valid_email db form
     \<longleftrightarrow> concat (map snd (RegistrationForm_errors valid_email db form)) = []"
  by (auto simp: validate_RegistrationForm_def)

text \<open>
  Claim C7 holds for an empty organization name or registration number: the inline
  validator raises its message and the route renders the form again.
\<close>

lemma register_empty_ngo_field_rejected:
  assumes "rf_user_type form = ''ngo''"
    and "rf_organization_name form = [] \<or> rf_registration_number form = []"
  shows "register valid_email gph now None (POST form) db
           = auth_reply db [] (Render_template ''auth/register.html'') None"
    and "rf_organization_name form = [] \<Longrightarrow>
           ''Organization name is required for NGOs.''
             \<in> set (concat (map snd (RegistrationForm_errors valid_email db form)))"
    and "rf_registration_number form = [] \<Longrightarrow>
           ''Registration number is required for NGOs.''
             \<in> set (concat (map snd (RegistrationForm_errors valid_email db form)))"
proof -
  have o: "''Organization name is required for NGOs.''
             \<in> set (concat (map snd (RegistrationForm_errors valid_email db form)))"
    if "rf_organization_name form = []"
    using assms(1) that
    by (simp add: RegistrationForm_errors_def validate_organization_name_def v_Length_def
        passes_def raises_def run_chain_def)
  have r: "''Registration number is required for NGOs.''
             \<in> set (concat (map snd (RegistrationForm_errors valid_email db form)))"
    if "rf_registration_number form = []"
    using assms(1) that
    by (simp add: RegistrationForm_errors_def validate_registration_number_def v_Length_def
        passes_def raises_def run_chain_def)
  from assms(2) o r have "concat (map snd (RegistrationForm_errors valid_email db form)) \<noteq> []"
    by (metis empty_iff list.set(1))
  then have "\<not> validate_RegistrationForm valid_email db form"
    by (simp add: validate_RegistrationForm_concat)
  then show "register valid_email gph now None (POST form) db
           = auth_reply db [] (Render_template ''auth/register.html'') None"
    by (simp add: register_def)
  show "rf_organization_name form = [] \<Longrightarrow>
           ''Organization name is required for NGOs.''
             \<in> set (concat (map snd (RegistrationForm_errors valid_email db form)))" by (rule o)
  show "rf_registration_number form = [] \<Longrightarrow>
           ''Registration number is required for NGOs.''
             \<in> set (concat (map snd (RegistrationForm_errors valid_email db form)))" by (rule r)
qed

text \<open>
  Claim C7 fails for a whitespace-only organization name. The inline validator tests
  \<^verbatim>\<open>not field.data\<close>, and three spaces are not empty: the form validates without any
  error message, and the route stores the stripped, empty name in a new user row of type
  NGO. The helper \<^verbatim>\<open>User.validate_ngo_fields\<close> of the model rejects the same name.
\<close>

theorem register_blank_organization_name:
  assumes "valid_email ''new@x.org''"
  shows "concat (map snd (RegistrationForm_errors valid_email db_empty blank_ngo_form)) = []
       \<and> register valid_email gph 60 None (POST blank_ngo_form) db_empty
           = auth_reply (db_empty\<lparr>users := users db_empty @ [blank_ngo_user (gph ''secret1'')],
                                  next_user_id := 5\<rparr>)
               [(''Registration successful! Welcome to Food Waste Tracker, New Org Contact.'', ''success'')]
               (Redirect Main_dashboard) (Some (blank_ngo_user (gph ''secret1'')))
       \<and> u_user_type (blank_ngo_user (gph ''secret1'')) = Ngo
       \<and> u_organization_name (blank_ngo_user (gph ''secret1'')) = Some []
       \<and> validate_ngo_fields (Some (rf_organization_name blank_ngo_form))
                              (Some (rf_registration_number blank_ngo_form))
           = (False, ''Organization name is required for NGOs'')"
proof -
  note e = blank_ngo_form_errors [of valid_email, OF assms]
  then have v: "validate_RegistrationForm valid_email db_empty blank_ngo_form"
    by (simp add: validate_RegistrationForm_concat)
  have u: "\<lparr>u_id = next_user_id db_empty,
                        u_username = strip (lower (rf_username blank_ngo_form)),
                        u_email = strip (lower (rf_email blank_ngo_form)),
                        u_password_hash = gph (rf_password blank_ngo_form),
                        u_user_type = (if rf_user_type blank_ngo_form = ''ngo'' then Ngo else Donor),
                        u_full_name = strip (rf_full_name blank_ngo_form),
                        u_phone = strip_or_None (rf_phone blank_ngo_form),
                        u_address = strip_or_None (rf_address blank_ngo_form),
                        u_city = strip_or_None (rf_city blank_ngo_form),
                        u_organization_name =
                          (if rf_user_type blank_ngo_form = ''ngo'' then Some (strip (rf_organization_name blank_ngo_form)) else None),
                        u_registration_number =
                          (if rf_user_type blank_ngo_form = ''ngo'' then Some (strip (rf_registration_number blank_ngo_form)) else None),
                        u_is_active = True,
                        u_created_at = 60,
                        u_updated_at = 60\<rparr> = blank_ngo_user (gph ''secret1'')"
    by (simp add: blank_ngo_form_def blank_ngo_user_def lower_examples strip_registration_examples
        strip_or_None_def db_empty_def)
  have i: "insert_user (blank_ngo_user (gph ''secret1'')) db_empty
      = Some (db_empty\<lparr>users := users db_empty @ [blank_ngo_user (gph ''secret1'')], next_user_id := 5\<rparr>)"
    by (simp add: insert_user_def blank_ngo_user_def db_empty_def donor_user_def ngo_user_def other_ngo_def)
  have n: "get_display_name (blank_ngo_user (gph ''secret1'')) = ''New Org Contact''"
    by (simp add: get_display_name_def blank_ngo_user_def)
  have r: "register valid_email gph 60 None (POST blank_ngo_form) db_empty
           = auth_reply (db_empty\<lparr>users := users db_empty @ [blank_ngo_user (gph ''secret1'')],
                                  next_user_id := 5\<rparr>)
               [(''Registration successful! Welcome to Food Waste Tracker, New Org Contact.'', ''success'')]
               (Redirect Main_dashboard) (Some (blank_ngo_user (gph ''secret1'')))"
    using v by (simp add: register_def Let_def u i n)
  have g: "validate_ngo_fields (Some (rf_organization_name blank_ngo_form))
                              (Some (rf_registration_number blank_ngo_form))
           = (False, ''Organization name is required for NGOs'')"
    by (simp add: validate_ngo_fields_def blank_ngo_form_def strip_registration_examples)
  show ?thesis using e r g by (simp add: blank_ngo_user_def)
qed

theorem register_blank_organization_name_witness:
  "(\<lambda>s. CHR ''@'' \<in> set s) ''new@x.org''
   \<and> users (out_db (register (\<lambda>s. CHR ''@'' \<in> set s) (\<lambda>p. ''bcrypt:'' @ p) 60 None
                      (POST blank_ngo_form) db_empty))
       = [donor_user, ngo_user, other_ngo, blank_ngo_user ''bcrypt:secret1'']
   \<and> u_organization_name (blank_ngo_user ''bcrypt:secret1'') = Some []"
proof -
  have h: "(\<lambda>s. CHR ''@'' \<in> set s) ''new@x.org''" by simp
  from register_blank_organization_name [of "\<lambda>s. CHR ''@'' \<in> set s" "\<lambda>p. ''bcrypt:'' @ p"] h
  show ?thesis by (simp add: auth_reply_def db_empty_def)
qed

subsection \<open>Login and the next parameter\<close>

lemma login_success:
  assumes "validate_LoginForm valid_email form"
    and "find (\<lambda>u. u_email u = lower (lf_email form)) (users db) = Some user"
    and "check_password cph user (lf_password form)" and "u_is_active user"
  shows "login valid_email cph None next (POST form) db =
           auth_reply db [(''Welcome back, '' @ get_display_name user @ ''!'', ''success'')]
             (case next of
                None \<Rightarrow> Redirect Main_dashboard
              | Some next_page \<Rightarrow>
                  if next_page \<noteq> [] then Redirect (Url next_page) else Redirect Main_dashboard)
             (Some user)"
  using assms by (simp add: login_def)

text \<open>
  Claim C8 says that a successful login follows \<open>next\<close> only when it is safe. The route
  has no test of the target: the donor logs in with \<open>next\<close> pointing to another site and
  is redirected there. (The address check and the password check are stand-ins that accept
  the credentials of the example.)
\<close>

theorem login_next_counterexample:
  "response (login (\<lambda>s. CHR ''@'' \<in> set s) (\<lambda>h p. p = ''secret1'') None
               (Some ''http://evil.example/'') (POST donor_login) db_empty)
     = Redirect (Url ''http://evil.example/'')
   \<and> logged_in (login (\<lambda>s. CHR ''@'' \<in> set s) (\<lambda>h p. p = ''secret1'') None
               (Some ''http://evil.example/'') (POST donor_login) db_empty) = Some donor_user
   \<and> \<not> spec_safe_next ''http://evil.example/''"
  by (simp add: login_def validate_LoginForm_def DataRequired_def check_password_def
      donor_login_def strip_registration_examples lower_examples db_empty_def donor_user_def
      auth_reply_def spec_safe_next_def)

text \<open>
  Claim C8, amended. For every successful login (valid form, the user found by the
  lower-cased email, password accepted, account active), the user is signed in and is
  redirected to the \<open>next\<close> query parameter whenever it is present and not empty,
  whatever it points to, and to the dashboard when it is absent or empty.
\<close>

theorem login_redirects_to_next:
  assumes "validate_LoginForm valid_email form"
    and "find (\<lambda>u. u_email u = lower (lf_email form)) (users db) = Some user"
    and "check_password cph user (lf_password form)" and "u_is_active user"
  shows "logged_in (login valid_email cph None next (POST form) db) = Some user
       \<and> (\<forall>target. next = Some target \<and> target \<noteq> [] \<longrightarrow>
             response (login valid_email cph None next (POST form) db) = Redirect (Url target))
       \<and> (next = None \<or> next = Some [] \<longrightarrow>
             response (login valid_email cph None next (POST form) db) = Redirect Main_dashboard)"
  unfolding login_success [OF assms] by (auto simp: auth_reply_def)

theorem login_redirects_to_next_witness:
  "validate_LoginForm (\<lambda>s. CHR ''@'' \<in> set s) donor_login
   \<and> find (\<lambda>u. u_email u = lower (lf_email donor_login)) (users db_empty) = Some donor_user
   \<and> check_password (\<lambda>h p. p = ''secret1'') donor_user (lf_password donor_login)
   \<and> u_is_active donor_user
   \<and> logged_in (login (\<lambda>s. CHR ''@'' \<in> set s) (\<lambda>h p. p = ''secret1'') None
                  (Some ''/donor/donations'') (POST donor_login) db_empty) = Some donor_user
   \<and> response (login (\<lambda>s. CHR ''@'' \<in> set s) (\<lambda>h p. p = ''secret1'') None
                  (Some ''/donor/donations'') (POST donor_login) db_empty)
       = Redirect (Url ''/donor/donations'')"
proof -
  have h1: "validate_LoginForm (\<lambda>s. CHR ''@'' \<in> set s) donor_login"
    by (simp add: validate_LoginForm_def DataRequired_def donor_login_def strip_registration_examples)
  have h2: "find (\<lambda>u. u_email u = lower (lf_email donor_login)) (users db_empty) = Some donor_user"
    by (simp add: donor_login_def lower_examples db_empty_def donor_user_def)
  have h3: "check_password (\<lambda>h p. p = ''secret1'') donor_user (lf_password donor_login)"
    by (simp add: check_password_def donor_login_def)
  have h4: "u_is_active donor_user" by (simp add: donor_user_def)
  from login_redirects_to_next [OF h1 h2 h3 h4, of "Some ''/donor/donations''"] h1 h2 h3 h4
  show ?thesis by simp
qed

subsection \<open>LIKE patterns and substrings\<close>

lemma like_match_percent [simp]: "like_match ''%'' s"
  by (induction s) simp_all

lemma like_match_plain_prefix:
  "CHR ''%'' \<notin> set n \<Longrightarrow> CHR ''_'' \<notin> set n
     \<Longrightarrow> like_match (n @ ''%'') s \<longleftrightarrow> take (length n) s = n"
proof (induction n arbitrary: s)
  case Nil
  then show ?case by simp
next
  case (Cons c n)
  then show ?case by (cases s) auto
qed

lemma like_match_substring:
  assumes "CHR ''%'' \<notin> set n" "CHR ''_'' \<notin> set n"
  shows "like_match (CHR ''%'' # n @ ''%'') s \<longleftrightarrow> is_substring n s"
proof (induction s)
  case Nil
  have "like_match (n @ ''%'') [] \<longleftrightarrow> n = []"
    using like_match_plain_prefix [OF assms, of "[]"] by auto
  then show ?case by simp
next
  case (Cons x s)
  then show ?case using like_match_plain_prefix [OF assms, of "x # s"] by simp
qed

lemma of_char_lower_char:
  "of_char (lower_char c) = (if 65 \<le> (of_char c :: nat) \<and> (of_char c :: nat) \<le> 90
                             then of_char c + 32 else (of_char c :: nat))"
  by (simp add: lower_char_def Let_def)

lemma lower_char_eq_meta:
  assumes "(of_char m :: nat) < 65 \<or> (90 < (of_char m :: nat) \<and> (of_char m :: nat) < 97)"
  shows "lower_char c = m \<longleftrightarrow> c = m"
proof
  assume "lower_char c = m"
  then have "of_char (lower_char c) = (of_char m :: nat)" by simp
  with assms have "(of_char c :: nat) = of_char m"
    unfolding of_char_lower_char by (auto split: if_splits)
  then show "c = m" by simp
next
  assume "c = m"
  with assms show "lower_char c = m" by (auto simp: lower_char_def Let_def)
qed

lemma lower_plain:
  "like_plain s \<Longrightarrow> CHR ''%'' \<notin> set (lower s) \<and> CHR ''_'' \<notin> set (lower s)"
proof -
  have p: "lower_char c = CHR ''%'' \<longleftrightarrow> c = CHR ''%''" for c
    by (rule lower_char_eq_meta) simp
  have u: "lower_char c = CHR ''_'' \<longleftrightarrow> c = CHR ''_''" for c
    by (rule lower_char_eq_meta) simp
  assume "like_plain s"
  then have "\<forall>c \<in> set s. c \<noteq> CHR ''%'' \<and> c \<noteq> CHR ''_''"
    by (auto simp: like_plain_def)
  then have "\<forall>c \<in> set s. lower_char c \<noteq> CHR ''%'' \<and> lower_char c \<noteq> CHR ''_''"
    by (simp add: p u)
  then show ?thesis by (auto simp: lower_def)
qed

lemma ilike_icontains:
  assumes "like_plain part"
  shows "ilike text (CHR ''%'' # part @ ''%'') \<longleftrightarrow> icontains text part"
proof -
  have "lower (CHR ''%'' # part @ ''%'') = CHR ''%'' # lower part @ ''%''"
    by (simp add: lower_def lower_char_def)
  then show ?thesis
    using like_match_substring [of "lower part" "lower text"] lower_plain [OF assms]
    by (simp add: ilike_def icontains_def)
qed

subsection \<open>The browse listing\<close>

lemma lower_search_examples:
  "lower ''BREAD'' = ''bread''" "lower ''spring'' = ''spring''"
  "lower ''Surplus Bread'' = ''surplus bread''" "lower ''Fresh Milk'' = ''fresh milk''"
  "lower ''Springfield'' = ''springfield''" "lower ''_'' = ''_''" "lower ''%_%'' = ''%_%''"
  by code_simp+

lemma ilike_icontains_append:
  assumes "like_plain part"
  shows "ilike text (''%'' @ part @ ''%'') \<longleftrightarrow> icontains text part"
  using ilike_icontains [OF assms] by simp

lemma browse_query_sorted_filter:
  assumes "like_plain (q_city args)" "like_plain (q_search args)"
  shows "browse_query today args db
           = sort_key (\<lambda>d. (d_expiry_date d, - d_created_at d))
               (filter (matches_filters today args) (food_donations db))"
proof -
  note i = ilike_icontains [OF assms(1)] ilike_icontains [OF assms(2)]
    ilike_icontains_append [OF assms(1)] ilike_icontains_append [OF assms(2)]
  have "browse_query today args db
      = sort_key (\<lambda>d. (d_expiry_date d, - d_created_at d))
          (filter (\<lambda>d. (d_status d = D_available
                  \<and> (q_city args = [] \<or> ilike (d_pickup_city d) (''%'' @ q_city args @ ''%''))
                  \<and> (\<not> q_category_id args > 0 \<or> d_category_id d = q_category_id args)
                  \<and> (q_search args = []
                          \<or> ilike (d_title d) (''%'' @ q_search args @ ''%'')
                          \<or> (case d_description d of
                                None \<Rightarrow> False
                              | Some t \<Rightarrow> ilike t (''%'' @ q_search args @ ''%'')))
                  \<and> d_expiry_date d \<ge> today)
                \<and> (q_dietary_info args = [] \<or> d_dietary_info d = Some (q_dietary_info args)))
             (food_donations db))"
    unfolding browse_query_def get_available_donations_def Let_def
    by (auto simp: filter_sort intro!: arg_cong [where f = "sort_key (\<lambda>d. (d_expiry_date d, - d_created_at d))"]
          filter_cong)
  also have "\<dots> = sort_key (\<lambda>d. (d_expiry_date d, - d_created_at d))
               (filter (matches_filters today args) (food_donations db))"
  proof (intro arg_cong [where f = "sort_key (\<lambda>d. (d_expiry_date d, - d_created_at d))"] filter_cong refl)
    fix d
    show "((d_status d = D_available
                  \<and> (q_city args = [] \<or> ilike (d_pickup_city d) (''%'' @ q_city args @ ''%''))
                  \<and> (\<not> q_category_id args > 0 \<or> d_category_id d = q_category_id args)
                  \<and> (q_search args = []
                          \<or> ilike (d_title d) (''%'' @ q_search args @ ''%'')
                          \<or> (case d_description d of
                                None \<Rightarrow> False
                              | Some t \<Rightarrow> ilike t (''%'' @ q_search args @ ''%'')))
                  \<and> d_expiry_date d \<ge> today)
                \<and> (q_dietary_info args = [] \<or> d_dietary_info d = Some (q_dietary_info args)))
          = matches_filters today args d"
      unfolding matches_filters_def i
      by (cases "d_description d") (auto simp: i)
  qed
  finally show ?thesis .
qed

text \<open>
  Claim C9 says that the listing matches the city and the search text as substrings
  without regard to case. The filters are LIKE patterns built from the submitted text:
  with the city \<^verbatim>\<open>_\<close> the listing of day 100 contains the bread and the milk of
  Springfield, though the city filter of the claim does not match them.
\<close>

theorem browse_listing_counterexample:
  "browse_donations 100 underscore_search db_listed = [bread, milk]
   \<and> d_pickup_city bread = ''Springfield''
   \<and> \<not> icontains ''Springfield'' (q_city underscore_search)
   \<and> \<not> matches_filters 100 underscore_search bread"
  by (simp add: browse_donations_def browse_query_def get_available_donations_def paginate_def
      underscore_search_def db_listed_def db_empty_def bread_def milk_def ilike_def
      lower_search_examples icontains_def matches_filters_def less_eq_prod_def)

text \<open>
  Claim C9, amended. For every combination of search text, category id, city and dietary
  filter in which the city and the search text contain none of the characters \<^verbatim>\<open>%\<close>,
  \<^verbatim>\<open>_\<close> and backslash, the public browse listing contains exactly the donations with
  status available and expiry date today or later that match every supplied filter (a
  text filter is supplied when it is not empty, the category id when it is positive):
  city by case-insensitive substring of the pickup city, search by case-insensitive
  substring of the title or the description, category and dietary by equality. The
  listing is ordered by expiry date ascending and, within equal expiry dates, by creation
  time descending, and a page holds the 12 items at its offset (a page number below 1
  is read as 1). A city or search text with \<^verbatim>\<open>%\<close> or \<^verbatim>\<open>_\<close> is matched as a LIKE
  pattern.
\<close>

theorem browse_listing_spec:
  assumes "like_plain (q_city args)" and "like_plain (q_search args)"
  shows "mset (browse_query today args db)
           = mset (filter (matches_filters today args) (food_donations db))
       \<and> sorted_wrt (\<lambda>a b. d_expiry_date a < d_expiry_date b
                         \<or> (d_expiry_date a = d_expiry_date b \<and> d_created_at a \<ge> d_created_at b))
           (browse_query today args db)
       \<and> browse_donations today args db
           = take 12 (drop (12 * (nat (max 1 (q_page args)) - 1)) (browse_query today args db))
       \<and> length (browse_donations today args db) \<le> 12"
proof -
  note q = browse_query_sorted_filter [OF assms, of today db]
  have m: "mset (browse_query today args db)
           = mset (filter (matches_filters today args) (food_donations db))"
    unfolding q by simp
  have "sorted (map (\<lambda>d. (d_expiry_date d, - d_created_at d)) (browse_query today args db))"
    unfolding q by (rule sorted_sort_key)
  then have s: "sorted_wrt (\<lambda>a b. d_expiry_date a < d_expiry_date b
                         \<or> (d_expiry_date a = d_expiry_date b \<and> d_created_at a \<ge> d_created_at b))
           (browse_query today args db)"
    unfolding sorted_map by (rule sorted_wrt_mono_rel [rotated]) (auto simp: less_eq_prod_def)
  have p: "browse_donations today args db
           = take 12 (drop (12 * (nat (max 1 (q_page args)) - 1)) (browse_query today args db))"
    by (simp add: browse_donations_def paginate_def Let_def max_def mult.commute)
  have l: "length (browse_donations today args db) \<le> 12" unfolding p by simp
  from m s p l show ?thesis by blast
qed

theorem browse_listing_spec_witness:
  "like_plain (q_city bread_search) \<and> like_plain (q_search bread_search)
   \<and> matches_filters 100 bread_search bread \<and> \<not> matches_filters 100 bread_search milk
   \<and> mset (browse_query 100 bread_search db_listed) = {#bread#}
   \<and> browse_donations 100 bread_search db_listed = browse_query 100 bread_search db_listed"
proof -
  have h1: "like_plain (q_city bread_search)" by (simp add: like_plain_def bread_search_def)
  have h2: "like_plain (q_search bread_search)" by (simp add: like_plain_def bread_search_def)
  have h3: "matches_filters 100 bread_search bread"
    by (simp add: matches_filters_def bread_search_def bread_def icontains_def lower_search_examples)
  have h4: "\<not> matches_filters 100 bread_search milk"
    by (simp add: matches_filters_def bread_search_def bread_def milk_def icontains_def
        lower_search_examples)
  have h5: "food_donations db_listed = [bread, milk]" by (simp add: db_listed_def)
  have h6: "q_page bread_search = 1" by (simp add: bread_search_def)
  note t = browse_listing_spec [OF h1 h2, of 100 db_listed]
  from t h3 h4 h5 have a: "mset (browse_query 100 bread_search db_listed) = {#bread#}" by simp
  then have "length (browse_query 100 bread_search db_listed) = 1"
    by (metis size_mset size_single)
  with t h6 have b: "browse_donations 100 bread_search db_listed = browse_query 100 bread_search db_listed"
    by simp
  from h1 h2 h3 h4 a b show ?thesis by blast
qed

end
